theory Spec2Isabelle
  imports Complex_Main "HOL-Library.Log_Nat" "HOL-Library.Sublist" "HOL-Library.Multiset"
begin

section \<open>The schema: tables, constraints and row-level policies\<close>

text \<open>
  The migration creates four tables. A row is a record with the table's columns, a table
  is the list of its rows in insertion order, and the database is the record of the four
  tables. A \<^verbatim>\<open>UUID\<close> is a natural number, a \<^verbatim>\<open>TIMESTAMPTZ\<close> an integer (an instant on
  one time line). \<^verbatim>\<open>auth.uid()\<close> is \<open>None\<close> for an anonymous caller.
\<close>

type_synonym uuid = nat
type_synonym timestamptz = int

datatype rsvp_status = going | maybe | not_going

record profile =
  p_id :: uuid
  p_full_name :: string
  p_bio :: "string option"
  p_location :: "string option"
  p_profile_picture :: "string option"
  p_created_at :: timestamptz
  p_updated_at :: timestamptz

record event =
  ev_id :: uuid
  ev_title :: string
  ev_description :: string
  ev_organizer_id :: uuid
  ev_location :: string
  ev_start_time :: timestamptz
  ev_end_time :: timestamptz
  ev_is_public :: bool
  ev_created_at :: timestamptz
  ev_updated_at :: timestamptz

record rsvp =
  rsvp_id :: uuid
  rsvp_event_id :: uuid
  rsvp_user_id :: uuid
  rsvp_state :: rsvp_status
  rsvp_created_at :: timestamptz
  rsvp_updated_at :: timestamptz

record review =
  rev_id :: uuid
  rev_event_id :: uuid
  rev_user_id :: uuid
  rev_rating :: int
  rev_comment :: string
  rev_created_at :: timestamptz
  rev_updated_at :: timestamptz

record database =
  profiles :: "profile list"
  events :: "event list"
  rsvps :: "rsvp list"
  reviews :: "review list"

definition empty_db :: database where
  "empty_db = \<lparr>profiles = [], events = [], rsvps = [], reviews = []\<rparr>"

text \<open>
  What a statement can fail with. The first four are PostgreSQL's violations, with the
  table or constraint they name; \<open>InvalidDatetime\<close> is a text that is no timestamp;
  \<open>NotSingleRow\<close> is the client library's \<^verbatim>\<open>.single()\<close> on a result of zero or several rows.
  \<open>message\<close> is the error's text, as the handlers read it (names without their quotation
  marks).
\<close>

datatype pg_error =
    RlsViolation string
  | CheckViolation string string
  | UniqueViolation string
  | ForeignKeyViolation string string
  | InvalidDatetime
  | NotSingleRow

fun message :: "pg_error \<Rightarrow> string" where
  "message (RlsViolation t) = ''new row violates row-level security policy for table '' @ t"
| "message (CheckViolation t c) = ''new row for relation '' @ t @ '' violates check constraint '' @ c"
| "message (UniqueViolation c) = ''duplicate key value violates unique constraint '' @ c"
| "message (ForeignKeyViolation t c) =
     ''insert or update on table '' @ t @ '' violates foreign key constraint '' @ c"
| "message InvalidDatetime = ''invalid input syntax for type timestamp with time zone''"
| "message NotSingleRow = ''JSON object requested, multiple (or no) rows returned''"

subsection \<open>SELECT policies\<close>

text \<open>
  \<^verbatim>\<open>USING (true)\<close> on profiles, rsvps and reviews; on events
  \<^verbatim>\<open>USING (is_public = true OR organizer_id = auth.uid())\<close>.
\<close>

definition event_visible :: "uuid option \<Rightarrow> event \<Rightarrow> bool" where
  "event_visible uid e = (ev_is_public e = True \<or> Some (ev_organizer_id e) = uid)"

definition select_events :: "uuid option \<Rightarrow> database \<Rightarrow> event list" where
  "select_events uid db = filter (event_visible uid) (events db)"

definition select_profiles :: "uuid option \<Rightarrow> database \<Rightarrow> profile list" where
  "select_profiles uid db = filter (\<lambda>p. True) (profiles db)"

definition select_rsvps :: "uuid option \<Rightarrow> database \<Rightarrow> rsvp list" where
  "select_rsvps uid db = filter (\<lambda>r. True) (rsvps db)"

definition select_reviews :: "uuid option \<Rightarrow> database \<Rightarrow> review list" where
  "select_reviews uid db = filter (\<lambda>r. True) (reviews db)"

subsection \<open>INSERT, UPDATE, DELETE\<close>

text \<open>
  An insert checks, in PostgreSQL's order: the policy's \<^verbatim>\<open>WITH CHECK\<close>, the table's
  \<^verbatim>\<open>CHECK\<close> constraints, the unique indexes (primary key first), and last the foreign keys
  (which are checked against the whole referenced table, policies apart). The first
  failure aborts the statement and nothing is stored. \<open>new_id\<close> is the value
  \<^verbatim>\<open>gen_random_uuid()\<close> draws and \<open>now\<close> the value of \<^verbatim>\<open>now()\<close>.
\<close>

definition insert_event ::
  "uuid option \<Rightarrow> uuid \<Rightarrow> timestamptz \<Rightarrow> string \<Rightarrow> string \<Rightarrow> string \<Rightarrow> timestamptz \<Rightarrow>
   timestamptz \<Rightarrow> bool \<Rightarrow> uuid \<Rightarrow> database \<Rightarrow> pg_error + database" where
  "insert_event uid new_id now title description location start_time end_time is_public
     organizer_id db =
     (if uid \<noteq> Some organizer_id then Inl (RlsViolation ''events'')
      else if \<not> end_time > start_time then Inl (CheckViolation ''events'' ''valid_time_range'')
      else if new_id \<in> set (map ev_id (events db)) then Inl (UniqueViolation ''events_pkey'')
      else if organizer_id \<notin> set (map p_id (profiles db))
        then Inl (ForeignKeyViolation ''events'' ''events_organizer_id_fkey'')
      else Inr (db\<lparr>events := events db @
        [\<lparr>ev_id = new_id, ev_title = title, ev_description = description,
          ev_organizer_id = organizer_id, ev_location = location, ev_start_time = start_time,
          ev_end_time = end_time, ev_is_public = is_public, ev_created_at = now,
          ev_updated_at = now\<rparr>]\<rparr>))"

definition insert_rsvp ::
  "uuid option \<Rightarrow> uuid \<Rightarrow> timestamptz \<Rightarrow> uuid \<Rightarrow> uuid \<Rightarrow> rsvp_status \<Rightarrow> database \<Rightarrow>
   pg_error + database" where
  "insert_rsvp uid new_id now event_id user_id status db =
     (if uid \<noteq> Some user_id then Inl (RlsViolation ''rsvps'')
      else if new_id \<in> set (map rsvp_id (rsvps db)) then Inl (UniqueViolation ''rsvps_pkey'')
      else if (event_id, user_id) \<in> set (map (\<lambda>r. (rsvp_event_id r, rsvp_user_id r)) (rsvps db))
        then Inl (UniqueViolation ''rsvps_event_id_user_id_key'')
      else if event_id \<notin> set (map ev_id (events db))
        then Inl (ForeignKeyViolation ''rsvps'' ''rsvps_event_id_fkey'')
      else if user_id \<notin> set (map p_id (profiles db))
        then Inl (ForeignKeyViolation ''rsvps'' ''rsvps_user_id_fkey'')
      else Inr (db\<lparr>rsvps := rsvps db @
        [\<lparr>rsvp_id = new_id, rsvp_event_id = event_id, rsvp_user_id = user_id,
          rsvp_state = status, rsvp_created_at = now, rsvp_updated_at = now\<rparr>]\<rparr>))"

text \<open>
  \<^verbatim>\<open>UPDATE rsvps SET status = ... WHERE event_id = ... AND user_id = ...\<close>: the policy
  \<^verbatim>\<open>USING (auth.uid() = user_id)\<close> hides every other row from the statement, the trigger
  sets \<^verbatim>\<open>updated_at\<close>. A statement that matches no row is no error.
\<close>

definition update_rsvp_status ::
  "uuid option \<Rightarrow> timestamptz \<Rightarrow> uuid \<Rightarrow> uuid \<Rightarrow> rsvp_status \<Rightarrow> database \<Rightarrow> database" where
  "update_rsvp_status uid now event_id user_id status db =
     db\<lparr>rsvps := map (\<lambda>r.
       if uid = Some (rsvp_user_id r) \<and> rsvp_event_id r = event_id \<and> rsvp_user_id r = user_id
       then r\<lparr>rsvp_state := status, rsvp_updated_at := now\<rparr> else r) (rsvps db)\<rparr>"

definition insert_review ::
  "uuid option \<Rightarrow> uuid \<Rightarrow> timestamptz \<Rightarrow> uuid \<Rightarrow> uuid \<Rightarrow> int \<Rightarrow> string \<Rightarrow> database \<Rightarrow>
   pg_error + database" where
  "insert_review uid new_id now event_id user_id rating comment db =
     (if uid \<noteq> Some user_id then Inl (RlsViolation ''reviews'')
      else if \<not> (rating \<ge> 1 \<and> rating \<le> 5)
        then Inl (CheckViolation ''reviews'' ''reviews_rating_check'')
      else if new_id \<in> set (map rev_id (reviews db)) then Inl (UniqueViolation ''reviews_pkey'')
      else if (event_id, user_id) \<in> set (map (\<lambda>r. (rev_event_id r, rev_user_id r)) (reviews db))
        then Inl (UniqueViolation ''reviews_event_id_user_id_key'')
      else if event_id \<notin> set (map ev_id (events db))
        then Inl (ForeignKeyViolation ''reviews'' ''reviews_event_id_fkey'')
      else if user_id \<notin> set (map p_id (profiles db))
        then Inl (ForeignKeyViolation ''reviews'' ''reviews_user_id_fkey'')
      else Inr (db\<lparr>reviews := reviews db @
        [\<lparr>rev_id = new_id, rev_event_id = event_id, rev_user_id = user_id,
          rev_rating = rating, rev_comment = comment, rev_created_at = now,
          rev_updated_at = now\<rparr>]\<rparr>))"

text \<open>
  \<^verbatim>\<open>DELETE FROM events WHERE id = ...\<close>: only rows the caller organizes
  (\<^verbatim>\<open>USING (auth.uid() = organizer_id)\<close>); \<^verbatim>\<open>ON DELETE CASCADE\<close> removes the RSVPs and
  reviews of every deleted event.
\<close>

definition delete_event :: "uuid option \<Rightarrow> uuid \<Rightarrow> database \<Rightarrow> database" where
  "delete_event uid event_id db =
     (let gone = map ev_id (filter (\<lambda>e. ev_id e = event_id \<and> uid = Some (ev_organizer_id e))
                   (events db))
      in db\<lparr>events := filter (\<lambda>e. ev_id e \<notin> set gone) (events db),
            rsvps := filter (\<lambda>r. rsvp_event_id r \<notin> set gone) (rsvps db),
            reviews := filter (\<lambda>r. rev_event_id r \<notin> set gone) (reviews db)\<rparr>)"

text \<open>
  The trigger \<^verbatim>\<open>on_auth_user_created\<close>: a new account gets its profile, named from the
  sign-up metadata or \<^verbatim>\<open>'Anonymous User'\<close>. The account's id is new (it is the primary key
  of \<^verbatim>\<open>auth.users\<close>); an id that already has a profile aborts the sign-up.
\<close>

definition handle_new_user :: "uuid \<Rightarrow> string option \<Rightarrow> timestamptz \<Rightarrow> database \<Rightarrow> pg_error + database" where
  "handle_new_user new_id full_name now db =
     (if new_id \<in> set (map p_id (profiles db)) then Inl (UniqueViolation ''profiles_pkey'')
      else Inr (db\<lparr>profiles := profiles db @
        [\<lparr>p_id = new_id,
          p_full_name = (case full_name of Some n \<Rightarrow> n | None \<Rightarrow> ''Anonymous User''),
          p_bio = None, p_location = None, p_profile_picture = None,
          p_created_at = now, p_updated_at = now\<rparr>]\<rparr>))"

text \<open>
  \<^verbatim>\<open>UPDATE profiles SET ... WHERE id = ...\<close> (the profile page): only the caller's own row
  (\<^verbatim>\<open>USING (auth.uid() = id)\<close>).
\<close>

definition update_profile ::
  "uuid option \<Rightarrow> timestamptz \<Rightarrow> uuid \<Rightarrow> string \<Rightarrow> string option \<Rightarrow> string option \<Rightarrow> database \<Rightarrow>
   database" where
  "update_profile uid now profile_id full_name bio location db =
     db\<lparr>profiles := map (\<lambda>p.
       if uid = Some (p_id p) \<and> p_id p = profile_id
       then p\<lparr>p_full_name := full_name, p_bio := bio, p_location := location, p_updated_at := now\<rparr>
       else p) (profiles db)\<rparr>"

text \<open>
  The other statements the policies admit, which no page issues but any client may send:
  \<^verbatim>\<open>UPDATE\<close> on events, rsvps and reviews and \<^verbatim>\<open>DELETE\<close> on rsvps and reviews, with any
  \<^verbatim>\<open>WHERE\<close> condition (\<open>cond\<close>) and any \<^verbatim>\<open>SET\<close> assignment (\<open>assign\<close>). The policy's
  \<^verbatim>\<open>USING\<close> hides every row of another owner from the statement; a policy without
  \<^verbatim>\<open>WITH CHECK\<close> applies \<^verbatim>\<open>USING\<close> to the new row as well, so the owner of a row cannot be
  changed. The trigger sets \<^verbatim>\<open>updated_at\<close>. The checks come in the order of an insert; a
  foreign key is checked for a row whose key column has changed, and the rows that
  reference a changed event id must still find their event. Uniqueness is required of the
  table after the statement (PostgreSQL checks it row by row and refuses no less).
\<close>

definition update_events ::
  "uuid option \<Rightarrow> timestamptz \<Rightarrow> (event \<Rightarrow> bool) \<Rightarrow> (event \<Rightarrow> event) \<Rightarrow> database \<Rightarrow>
   pg_error + database" where
  "update_events uid now cond assign db =
     (let hit = (\<lambda>e. uid = Some (ev_organizer_id e) \<and> cond e);
          new = (\<lambda>e. (assign e)\<lparr>ev_updated_at := now\<rparr>);
          changed = map new (filter hit (events db));
          rows = map (\<lambda>e. if hit e then new e else e) (events db);
          old_ids = map ev_id (filter hit (events db))
      in if list_ex (\<lambda>e. uid \<noteq> Some (ev_organizer_id e)) changed
           then Inl (RlsViolation ''events'')
         else if list_ex (\<lambda>e. \<not> ev_end_time e > ev_start_time e) changed
           then Inl (CheckViolation ''events'' ''valid_time_range'')
         else if \<not> distinct (map ev_id rows) then Inl (UniqueViolation ''events_pkey'')
         else if list_ex (\<lambda>r. rsvp_event_id r \<in> set old_ids \<and>
                               rsvp_event_id r \<notin> set (map ev_id rows)) (rsvps db)
           then Inl (ForeignKeyViolation ''rsvps'' ''rsvps_event_id_fkey'')
         else if list_ex (\<lambda>r. rev_event_id r \<in> set old_ids \<and>
                               rev_event_id r \<notin> set (map ev_id rows)) (reviews db)
           then Inl (ForeignKeyViolation ''reviews'' ''reviews_event_id_fkey'')
         else Inr (db\<lparr>events := rows\<rparr>))"

definition update_rsvps ::
  "uuid option \<Rightarrow> timestamptz \<Rightarrow> (rsvp \<Rightarrow> bool) \<Rightarrow> (rsvp \<Rightarrow> rsvp) \<Rightarrow> database \<Rightarrow>
   pg_error + database" where
  "update_rsvps uid now cond assign db =
     (let hit = (\<lambda>r. uid = Some (rsvp_user_id r) \<and> cond r);
          new = (\<lambda>r. (assign r)\<lparr>rsvp_updated_at := now\<rparr>);
          changed = map new (filter hit (rsvps db));
          rows = map (\<lambda>r. if hit r then new r else r) (rsvps db)
      in if list_ex (\<lambda>r. uid \<noteq> Some (rsvp_user_id r)) changed
           then Inl (RlsViolation ''rsvps'')
         else if \<not> distinct (map rsvp_id rows) then Inl (UniqueViolation ''rsvps_pkey'')
         else if \<not> distinct (map (\<lambda>r. (rsvp_event_id r, rsvp_user_id r)) rows)
           then Inl (UniqueViolation ''rsvps_event_id_user_id_key'')
         else if list_ex (\<lambda>r. rsvp_event_id (new r) \<noteq> rsvp_event_id r \<and>
                               rsvp_event_id (new r) \<notin> set (map ev_id (events db)))
                   (filter hit (rsvps db))
           then Inl (ForeignKeyViolation ''rsvps'' ''rsvps_event_id_fkey'')
         else Inr (db\<lparr>rsvps := rows\<rparr>))"

definition update_reviews ::
  "uuid option \<Rightarrow> timestamptz \<Rightarrow> (review \<Rightarrow> bool) \<Rightarrow> (review \<Rightarrow> review) \<Rightarrow> database \<Rightarrow>
   pg_error + database" where
  "update_reviews uid now cond assign db =
     (let hit = (\<lambda>r. uid = Some (rev_user_id r) \<and> cond r);
          new = (\<lambda>r. (assign r)\<lparr>rev_updated_at := now\<rparr>);
          changed = map new (filter hit (reviews db));
          rows = map (\<lambda>r. if hit r then new r else r) (reviews db)
      in if list_ex (\<lambda>r. uid \<noteq> Some (rev_user_id r)) changed
           then Inl (RlsViolation ''reviews'')
         else if list_ex (\<lambda>r. \<not> (rev_rating r \<ge> 1 \<and> rev_rating r \<le> 5)) changed
           then Inl (CheckViolation ''reviews'' ''reviews_rating_check'')
         else if \<not> distinct (map rev_id rows) then Inl (UniqueViolation ''reviews_pkey'')
         else if \<not> distinct (map (\<lambda>r. (rev_event_id r, rev_user_id r)) rows)
           then Inl (UniqueViolation ''reviews_event_id_user_id_key'')
         else if list_ex (\<lambda>r. rev_event_id (new r) \<noteq> rev_event_id r \<and>
                               rev_event_id (new r) \<notin> set (map ev_id (events db)))
                   (filter hit (reviews db))
           then Inl (ForeignKeyViolation ''reviews'' ''reviews_event_id_fkey'')
         else Inr (db\<lparr>reviews := rows\<rparr>))"

definition delete_rsvps :: "uuid option \<Rightarrow> (rsvp \<Rightarrow> bool) \<Rightarrow> database \<Rightarrow> database" where
  "delete_rsvps uid cond db =
     db\<lparr>rsvps := filter (\<lambda>r. \<not> (uid = Some (rsvp_user_id r) \<and> cond r)) (rsvps db)\<rparr>"

definition delete_reviews :: "uuid option \<Rightarrow> (review \<Rightarrow> bool) \<Rightarrow> database \<Rightarrow> database" where
  "delete_reviews uid cond db =
     db\<lparr>reviews := filter (\<lambda>r. \<not> (uid = Some (rev_user_id r) \<and> cond r)) (reviews db)\<rparr>"

text \<open>
  The end of an account (a row of \<^verbatim>\<open>auth.users\<close>, deleted by the authentication service):
  \<^verbatim>\<open>ON DELETE CASCADE\<close> removes its profile, the events it organizes with their RSVPs and
  reviews, and its own RSVPs and reviews.
\<close>

definition delete_user :: "uuid \<Rightarrow> database \<Rightarrow> database" where
  "delete_user account db =
     (let gone = map ev_id (filter (\<lambda>e. ev_organizer_id e = account) (events db))
      in db\<lparr>profiles := filter (\<lambda>p. p_id p \<noteq> account) (profiles db),
            events := filter (\<lambda>e. ev_organizer_id e \<noteq> account) (events db),
            rsvps := filter (\<lambda>r. rsvp_user_id r \<noteq> account \<and> rsvp_event_id r \<notin> set gone) (rsvps db),
            reviews := filter (\<lambda>r. rev_user_id r \<noteq> account \<and> rev_event_id r \<notin> set gone)
                         (reviews db)\<rparr>)"

text \<open>
  The states the database can be in: it starts empty, and every change is one of the
  statements above, from any caller and with any values.
\<close>

inductive reachable :: "database \<Rightarrow> bool" where
  start: "reachable empty_db"
| new_user: "reachable db \<Longrightarrow> handle_new_user new_id full_name now db = Inr db' \<Longrightarrow> reachable db'"
| profile_updated: "reachable db \<Longrightarrow>
    reachable (update_profile uid now profile_id full_name bio location db)"
| event_inserted: "reachable db \<Longrightarrow>
    insert_event uid new_id now title description location start_time end_time is_public
      organizer_id db = Inr db' \<Longrightarrow> reachable db'"
| event_deleted: "reachable db \<Longrightarrow> reachable (delete_event uid event_id db)"
| rsvp_inserted: "reachable db \<Longrightarrow>
    insert_rsvp uid new_id now event_id user_id status db = Inr db' \<Longrightarrow> reachable db'"
| rsvp_updated: "reachable db \<Longrightarrow> reachable (update_rsvp_status uid now event_id user_id status db)"
| review_inserted: "reachable db \<Longrightarrow>
    insert_review uid new_id now event_id user_id rating comment db = Inr db' \<Longrightarrow> reachable db'"
| events_updated: "reachable db \<Longrightarrow> update_events uid now event_cond event_assign db = Inr db' \<Longrightarrow>
    reachable db'"
| rsvps_updated: "reachable db \<Longrightarrow> update_rsvps uid now rsvp_cond rsvp_assign db = Inr db' \<Longrightarrow>
    reachable db'"
| reviews_updated: "reachable db \<Longrightarrow> update_reviews uid now review_cond review_assign db = Inr db' \<Longrightarrow>
    reachable db'"
| rsvps_deleted: "reachable db \<Longrightarrow> reachable (delete_rsvps uid rsvp_cond db)"
| reviews_deleted: "reachable db \<Longrightarrow> reachable (delete_reviews uid review_cond db)"
| user_deleted: "reachable db \<Longrightarrow> reachable (delete_user account db)"

section \<open>Strings and validation schemas\<close>

text \<open>
  A string is the list of its code units, here the units below 256. \<^verbatim>\<open>trim()\<close> strips
  the white space and line terminators of that range from both ends; \<^verbatim>\<open>toLowerCase()\<close>
  maps the upper-case letters of that range; \<^verbatim>\<open>includes\<close> is a contiguous sub-string.
\<close>

definition is_space :: "char \<Rightarrow> bool" where
  "is_space c = (c \<in> set [CHR 0x09, CHR 0x0A, CHR 0x0B, CHR 0x0C, CHR 0x0D, CHR 0x20, CHR 0xA0])"

definition trim :: "string \<Rightarrow> string" where
  "trim s = rev (dropWhile is_space (rev (dropWhile is_space s)))"

definition lower_char :: "char \<Rightarrow> char" where
  "lower_char c = (let n = (of_char c :: nat) in
     if (65 \<le> n \<and> n \<le> 90) \<or> (192 \<le> n \<and> n \<le> 222 \<and> n \<noteq> 215) then char_of (n + 32) else c)"

definition toLowerCase :: "string \<Rightarrow> string" where
  "toLowerCase s = map lower_char s"

definition str_includes :: "string \<Rightarrow> string \<Rightarrow> bool" where
  "str_includes s t = sublist t s"

text \<open>
  A zod issue: the field it is about and the message the schema gives for it, if any
  (the library's default message otherwise). A \<^verbatim>\<open>ZodError\<close> is a non-empty list of issues,
  in the order of the schema's fields.
\<close>

datatype zod_issue = too_small string "string option" | too_big string "string option"

text \<open>\<^verbatim>\<open>z.string().trim().min(lo, lo_msg).max(hi)\<close>: the issues and the trimmed value.\<close>

definition string_trim_min_max ::
  "string \<Rightarrow> nat \<Rightarrow> string option \<Rightarrow> nat \<Rightarrow> string \<Rightarrow> zod_issue list \<times> string" where
  "string_trim_min_max field lo lo_msg hi s =
     (let t = trim s
      in ((if length t < lo then [too_small field lo_msg] else []) @
          (if length t > hi then [too_big field None] else []), t))"

text \<open>
  \<^verbatim>\<open>reviewSchema\<close>. The rating is the page's \<^verbatim>\<open>rating\<close> state: it starts at 5 and is set only
  by the five star buttons, so it is an integer; the schema bounds it by 1 and 5.
\<close>

definition reviewSchema_parse :: "int \<Rightarrow> string \<Rightarrow> zod_issue list + (int \<times> string)" where
  "reviewSchema_parse rating comment =
     (let rating_issues = (if rating < 1 then [too_small ''rating'' None] else []) @
                          (if rating > 5 then [too_big ''rating'' None] else []);
          (comment_issues, c) = string_trim_min_max ''comment'' 10
             (Some ''Review must be at least 10 characters'') 1000 comment;
          issues = rating_issues @ comment_issues
      in if issues = [] then Inr (rating, c) else Inl issues)"

text \<open>
  The value of a \<^verbatim>\<open>datetime-local\<close> form field: the empty string, a non-empty text that is
  no date and time, or a date and time without a zone (\<^verbatim>\<open>YYYY-MM-DDTHH:mm\<close>), here the
  number that this wall-clock reading has on a clock without zones. Who reads such a text
  gives it an instant in his own time zone: a zone is the function from wall-clock
  readings to instants. \<^verbatim>\<open>new Date(text)\<close> reads it in the browser's zone; of the first two
  values it is an invalid date (\<open>None\<close>), and every comparison with an invalid date is
  false. PostgreSQL reads the text in the zone of the database session and refuses the
  first two as timestamps.
\<close>

datatype time_field = Blank | Malformed | WallClock int

type_synonym zone = "int \<Rightarrow> timestamptz"

fun js_Date :: "zone \<Rightarrow> time_field \<Rightarrow> timestamptz option" where
  "js_Date browser_zone (WallClock w) = Some (browser_zone w)"
| "js_Date browser_zone Blank = None"
| "js_Date browser_zone Malformed = None"

fun date_le :: "timestamptz option \<Rightarrow> timestamptz option \<Rightarrow> bool" where
  "date_le (Some a) (Some b) = (a \<le> b)"
| "date_le _ _ = False"

text \<open>
  The length of the field's text, which is all \<^verbatim>\<open>z.string().min(1)\<close> reads: 16 for a date
  and time (\<^verbatim>\<open>YYYY-MM-DDTHH:mm\<close>), at least 1 for any other non-empty text.
\<close>

fun time_field_length :: "time_field \<Rightarrow> nat" where
  "time_field_length Blank = 0"
| "time_field_length Malformed = 1"
| "time_field_length (WallClock w) = 16"

record event_form =
  f_title :: string
  f_description :: string
  f_location :: string
  f_start_time :: time_field
  f_end_time :: time_field

definition eventSchema_parse :: "event_form \<Rightarrow> zod_issue list + event_form" where
  "eventSchema_parse data =
     (let (title_issues, title) = string_trim_min_max ''title'' 3
             (Some ''Title must be at least 3 characters'') 200 (f_title data);
          (description_issues, description) = string_trim_min_max ''description'' 10
             (Some ''Description must be at least 10 characters'') 2000 (f_description data);
          (location_issues, location) = string_trim_min_max ''location'' 3
             (Some ''Location must be at least 3 characters'') 500 (f_location data);
          start_issues = (if time_field_length (f_start_time data) < 1
             then [too_small ''start_time'' (Some ''Start time is required'')] else []);
          end_issues = (if time_field_length (f_end_time data) < 1
             then [too_small ''end_time'' (Some ''End time is required'')] else []);
          issues = title_issues @ description_issues @ location_issues @ start_issues @ end_issues
      in if issues = [] then
           Inr \<lparr>f_title = title, f_description = description, f_location = location,
                f_start_time = f_start_time data, f_end_time = f_end_time data\<rparr>
         else Inl issues)"

section \<open>Creating an event (\<^verbatim>\<open>CreateEventContent.handleSubmit\<close>)\<close>

text \<open>
  The insert request: the two times travel as the form's text, and PostgreSQL reads them
  first, in the zone of the database session.
\<close>

definition post_event ::
  "zone \<Rightarrow> uuid option \<Rightarrow> uuid \<Rightarrow> timestamptz \<Rightarrow> string \<Rightarrow> string \<Rightarrow> string \<Rightarrow> time_field \<Rightarrow>
   time_field \<Rightarrow> bool \<Rightarrow> uuid \<Rightarrow> database \<Rightarrow> pg_error + database" where
  "post_event database_zone uid new_id now title description location start_time end_time
     is_public organizer_id db =
     (case (start_time, end_time) of
        (WallClock s, WallClock e) \<Rightarrow>
          insert_event uid new_id now title description location (database_zone s)
            (database_zone e) is_public organizer_id db
      | _ \<Rightarrow> Inl InvalidDatetime)"

datatype submit_outcome =
    NotSignedIn
  | Invalid zod_issue
  | EndNotAfterStart
  | CreateFailed pg_error
  | EventCreated

text \<open>
  \<open>NotSignedIn\<close>: \<^verbatim>\<open>if (!user) return\<close>. \<open>Invalid\<close>: the toast of the first issue of the
  \<^verbatim>\<open>ZodError\<close>. \<open>EndNotAfterStart\<close>: the toast \<^verbatim>\<open>"End time must be after start time"\<close>.
  \<open>CreateFailed\<close>: the toast \<^verbatim>\<open>"Failed to create event"\<close>. \<open>EventCreated\<close>: the success toast
  and the way back to the index page.
\<close>

definition handleSubmit ::
  "zone \<Rightarrow> zone \<Rightarrow> uuid option \<Rightarrow> bool \<Rightarrow> event_form \<Rightarrow> uuid \<Rightarrow> timestamptz \<Rightarrow> database \<Rightarrow>
   submit_outcome \<times> database" where
  "handleSubmit browser_zone database_zone user isPublic data new_id now db =
     (case user of
        None \<Rightarrow> (NotSignedIn, db)
      | Some u \<Rightarrow>
         (case eventSchema_parse data of
            Inl issues \<Rightarrow> (Invalid (hd issues), db)
          | Inr validated \<Rightarrow>
              if date_le (js_Date browser_zone (f_end_time validated))
                   (js_Date browser_zone (f_start_time validated))
              then (EndNotAfterStart, db)
              else (case post_event database_zone (Some u) new_id now (f_title validated)
                           (f_description validated) (f_location validated)
                           (f_start_time validated) (f_end_time validated) isPublic u db of
                      Inl err \<Rightarrow> (CreateFailed err, db)
                    | Inr db' \<Rightarrow> (EventCreated, db'))))"

section \<open>The index page (\<^verbatim>\<open>Index.fetchEvents\<close>, \<^verbatim>\<open>filteredEvents\<close>)\<close>

text \<open>
  A row of the listing: the event's columns, the organizer's \<^verbatim>\<open>full_name\<close> and the ids of
  the event's RSVPs, each embedded through its own table's SELECT policy.
\<close>

record listed_event =
  le_event :: event
  le_organizer :: "string option"
  le_rsvps :: "uuid list"

definition embed_organizer :: "uuid option \<Rightarrow> database \<Rightarrow> event \<Rightarrow> string option" where
  "embed_organizer uid db e =
     map_option p_full_name (find (\<lambda>p. p_id p = ev_organizer_id e) (select_profiles uid db))"

text \<open>
  \<^verbatim>\<open>.eq("is_public", true).gte("start_time", now).order("start_time", ascending)\<close>, on the
  rows the events policy shows the caller. \<open>now\<close> is the client's clock at the request.
  Rows of equal \<^verbatim>\<open>start_time\<close> come in table order.
\<close>

definition fetchEvents :: "uuid option \<Rightarrow> timestamptz \<Rightarrow> database \<Rightarrow> listed_event list" where
  "fetchEvents uid now db =
     map (\<lambda>e. \<lparr>le_event = e, le_organizer = embed_organizer uid db e,
                le_rsvps = map rsvp_id (filter (\<lambda>r. rsvp_event_id r = ev_id e) (select_rsvps uid db))\<rparr>)
       (sort_key ev_start_time
         (filter (\<lambda>e. ev_is_public e = True \<and> ev_start_time e \<ge> now) (select_events uid db)))"

definition matches_query :: "string \<Rightarrow> listed_event \<Rightarrow> bool" where
  "matches_query searchQuery row =
     (str_includes (toLowerCase (ev_title (le_event row))) (toLowerCase searchQuery) \<or>
      str_includes (toLowerCase (ev_description (le_event row))) (toLowerCase searchQuery) \<or>
      str_includes (toLowerCase (ev_location (le_event row))) (toLowerCase searchQuery))"

definition filteredEvents :: "string \<Rightarrow> listed_event list \<Rightarrow> listed_event list" where
  "filteredEvents searchQuery evs = filter (matches_query searchQuery) evs"

section \<open>The event page (\<^verbatim>\<open>EventDetails\<close>)\<close>

record rsvp_item =
  ri_id :: uuid
  ri_status :: rsvp_status
  ri_user_id :: uuid

record review_item =
  vi_id :: uuid
  vi_rating :: int
  vi_comment :: string
  vi_user_id :: uuid
  vi_created_at :: timestamptz
  vi_user :: "string option"

record event_details =
  ed_event :: event
  ed_organizer :: "string option"
  ed_rsvps :: "rsvp_item list"
  ed_reviews :: "review_item list"

text \<open>
  The query of \<^verbatim>\<open>fetchEvent\<close>: the event of that id among the rows the events policy shows
  the caller, with its organizer, RSVPs and reviews embedded; \<^verbatim>\<open>.single()\<close> fails unless
  exactly one row comes back.
\<close>

definition event_with_embeds :: "uuid option \<Rightarrow> database \<Rightarrow> event \<Rightarrow> event_details" where
  "event_with_embeds uid db e =
     \<lparr>ed_event = e, ed_organizer = embed_organizer uid db e,
      ed_rsvps = map (\<lambda>r. \<lparr>ri_id = rsvp_id r, ri_status = rsvp_state r, ri_user_id = rsvp_user_id r\<rparr>)
        (filter (\<lambda>r. rsvp_event_id r = ev_id e) (select_rsvps uid db)),
      ed_reviews = map (\<lambda>r. \<lparr>vi_id = rev_id r, vi_rating = rev_rating r, vi_comment = rev_comment r,
          vi_user_id = rev_user_id r, vi_created_at = rev_created_at r,
          vi_user = map_option p_full_name (find (\<lambda>p. p_id p = rev_user_id r) (select_profiles uid db))\<rparr>)
        (filter (\<lambda>r. rev_event_id r = ev_id e) (select_reviews uid db))\<rparr>"

definition select_event_single :: "uuid option \<Rightarrow> uuid \<Rightarrow> database \<Rightarrow> pg_error + event_details" where
  "select_event_single uid event_id db =
     (case filter (\<lambda>e. ev_id e = event_id) (select_events uid db) of
        [e] \<Rightarrow> Inr (event_with_embeds uid db e)
      | _ \<Rightarrow> Inl NotSingleRow)"

text \<open>
  The page's state, as far as the handlers read it: the loaded event and the caller's own
  RSVP status (\<^verbatim>\<open>userRsvp\<close>, \<open>None\<close> for \<^verbatim>\<open>null\<close>).
\<close>

record page =
  pg_event :: "event_details option"
  pg_userRsvp :: "rsvp_status option"

definition initial_page :: page where
  "initial_page = \<lparr>pg_event = None, pg_userRsvp = None\<rparr>"

datatype fetch_outcome = Loaded | LoadFailed

text \<open>
  \<open>LoadFailed\<close>: the toast \<^verbatim>\<open>"Failed to load event"\<close> and the way back to the index page,
  whatever the error was.
\<close>

definition fetchEvent :: "uuid option \<Rightarrow> uuid \<Rightarrow> database \<Rightarrow> page \<Rightarrow> fetch_outcome \<times> page" where
  "fetchEvent user event_id db pg =
     (case select_event_single user event_id db of
        Inl err \<Rightarrow> (LoadFailed, pg)
      | Inr data \<Rightarrow>
          (Loaded,
           (case user of
              None \<Rightarrow> pg\<lparr>pg_event := Some data\<rparr>
            | Some u \<Rightarrow> pg\<lparr>pg_event := Some data,
                pg_userRsvp := map_option ri_status (find (\<lambda>r. ri_user_id r = u) (ed_rsvps data))\<rparr>)))"

datatype rsvp_outcome = RsvpToAuth | RsvpUpdated rsvp_status | RsvpFailed pg_error

text \<open>
  \<open>RsvpToAuth\<close>: no user, the way to the sign-in page. \<open>RsvpUpdated\<close>: the success toast;
  the page then sets \<^verbatim>\<open>userRsvp\<close> and loads the event again. \<open>RsvpFailed\<close>: the toast
  \<^verbatim>\<open>"Failed to update RSVP"\<close>.
\<close>

definition handleRsvp ::
  "uuid option \<Rightarrow> uuid \<Rightarrow> rsvp_status \<Rightarrow> uuid \<Rightarrow> timestamptz \<Rightarrow> page \<Rightarrow> database \<Rightarrow>
   rsvp_outcome \<times> page \<times> database" where
  "handleRsvp user event_id status new_id now pg db =
     (case user of
        None \<Rightarrow> (RsvpToAuth, pg, db)
      | Some u \<Rightarrow>
          (case (if pg_userRsvp pg \<noteq> None
                 then Inr (update_rsvp_status (Some u) now event_id u status db)
                 else insert_rsvp (Some u) new_id now event_id u status db) of
             Inl err \<Rightarrow> (RsvpFailed err, pg, db)
           | Inr db' \<Rightarrow>
               (RsvpUpdated status, snd (fetchEvent user event_id db' (pg\<lparr>pg_userRsvp := Some status\<rparr>)), db')))"

text \<open>The status that the database holds for a user and an event, if any.\<close>

definition own_rsvp :: "uuid \<Rightarrow> uuid \<Rightarrow> database \<Rightarrow> rsvp_status option" where
  "own_rsvp event_id u db =
     map_option rsvp_state
       (find (\<lambda>r. rsvp_event_id r = event_id \<and> rsvp_user_id r = u) (rsvps db))"

definition handleDelete :: "uuid option \<Rightarrow> uuid \<Rightarrow> database \<Rightarrow> database" where
  "handleDelete user event_id db = delete_event user event_id db"

datatype review_outcome =
    ReviewToAuth
  | ReviewInvalid zod_issue
  | AlreadyReviewed
  | ReviewFailed pg_error
  | ReviewSubmitted

text \<open>
  \<open>ReviewInvalid\<close>: the toast of the first issue of the \<^verbatim>\<open>ZodError\<close>. \<open>AlreadyReviewed\<close>:
  the toast \<^verbatim>\<open>"You've already reviewed this event"\<close>, on an error whose message includes
  \<^verbatim>\<open>"duplicate"\<close>. \<open>ReviewFailed\<close>: the toast \<^verbatim>\<open>"Failed to submit review"\<close>.
  \<open>ReviewSubmitted\<close>: the success toast; the page then clears its form and loads the event
  again (\<open>fetchEvent\<close>).
\<close>

definition handleSubmitReview ::
  "uuid option \<Rightarrow> uuid \<Rightarrow> int \<Rightarrow> string \<Rightarrow> uuid \<Rightarrow> timestamptz \<Rightarrow> database \<Rightarrow>
   review_outcome \<times> database" where
  "handleSubmitReview user event_id rating comment new_id now db =
     (case user of
        None \<Rightarrow> (ReviewToAuth, db)
      | Some u \<Rightarrow>
          (case reviewSchema_parse rating comment of
             Inl issues \<Rightarrow> (ReviewInvalid (hd issues), db)
           | Inr (validated_rating, validated_comment) \<Rightarrow>
               (case insert_review (Some u) new_id now event_id u validated_rating validated_comment db of
                  Inl err \<Rightarrow>
                    if str_includes (message err) ''duplicate'' then (AlreadyReviewed, db)
                    else (ReviewFailed err, db)
                | Inr db' \<Rightarrow> (ReviewSubmitted, db'))))"

text \<open>What the page derives from the loaded event at render time \<open>now\<close>.\<close>

definition isOrganizer :: "uuid option \<Rightarrow> event_details \<Rightarrow> bool" where
  "isOrganizer user ed = (user = Some (ev_organizer_id (ed_event ed)))"

definition hasEnded :: "timestamptz \<Rightarrow> event_details \<Rightarrow> bool" where
  "hasEnded now ed = (ev_end_time (ed_event ed) < now)"

definition rsvp_buttons_shown :: "uuid option \<Rightarrow> timestamptz \<Rightarrow> event_details \<Rightarrow> bool" where
  "rsvp_buttons_shown user now ed = (\<not> isOrganizer user ed \<and> \<not> hasEnded now ed)"

definition review_form_shown :: "uuid option \<Rightarrow> timestamptz \<Rightarrow> event_details \<Rightarrow> bool" where
  "review_form_shown user now ed =
     (case user of
        None \<Rightarrow> False
      | Some u \<Rightarrow> hasEnded now ed \<and> \<not> list_ex (\<lambda>r. vi_user_id r = u) (ed_reviews ed))"

definition count_status :: "rsvp_status \<Rightarrow> event_details \<Rightarrow> nat" where
  "count_status s ed = length (filter (\<lambda>r. ri_status r = s) (ed_rsvps ed))"

subsection \<open>The average rating\<close>

text \<open>
  \<^verbatim>\<open>(sum / length).toFixed(1)\<close> is computed on IEEE doubles. A double is modelled by the
  rational it denotes. The ratings are integers and their sum is exact (below \<open>2^53\<close>).
  The quotient is the double nearest to the exact quotient, ties to the even significand:
  \<open>binade q\<close> is the exponent \<open>e\<close> with \<open>2^e \<le> q < 2^(e+1)\<close>, and the 53-bit significand
  is \<open>q\<close> scaled by \<open>2^(52-e)\<close> and rounded. (Normal range, non-zero divisor: the page
  divides only when there is a review.)
\<close>

definition round_half_even :: "rat \<Rightarrow> int" where
  "round_half_even q = (let f = \<lfloor>q\<rfloor>; r = q - of_int f in
     if r < 1/2 then f else if 1/2 < r then f + 1 else if even f then f else f + 1)"

definition binade :: "rat \<Rightarrow> int" where
  "binade q = (case quotient_of q of (n, d) \<Rightarrow>
     let k = bitlen n - bitlen d in if 2 powi k \<le> q then k else k - 1)"

definition fl64 :: "rat \<Rightarrow> rat" where
  "fl64 q = (if q = 0 then 0 else
     let a = \<bar>q\<bar>; s = 2 powi (52 - binade a)
     in sgn q * (of_int (round_half_even (a * s)) / s))"

definition js_divide :: "int \<Rightarrow> int \<Rightarrow> rat" where
  "js_divide a b = fl64 (of_int a / of_int b)"

text \<open>
  \<^verbatim>\<open>x.toFixed(1)\<close>: the integer \<open>n\<close> for which \<open>n / 10\<close> is closest to the exact value of
  \<open>\<bar>x\<bar>\<close>, the larger one of two; printed with one digit after the point, after the sign.
\<close>

definition digit_char :: "nat \<Rightarrow> char" where
  "digit_char d = ''0123456789'' ! d"

fun show_nat :: "nat \<Rightarrow> string" where
  "show_nat n = (if n < 10 then [digit_char n] else show_nat (n div 10) @ [digit_char (n mod 10)])"

declare show_nat.simps [simp del]

definition tenths :: "rat \<Rightarrow> int" where
  "tenths x = \<lfloor>\<bar>x\<bar> * 10 + 1 / 2\<rfloor>"

definition fixed1 :: "nat \<Rightarrow> string" where
  "fixed1 n = show_nat (n div 10) @ ''.'' @ show_nat (n mod 10)"

definition toFixed1 :: "rat \<Rightarrow> string" where
  "toFixed1 x = (if x < 0 then ''-'' else []) @ fixed1 (nat (tenths x))"

definition avgRating :: "event_details \<Rightarrow> string" where
  "avgRating ed =
     (if length (ed_reviews ed) > 0
      then toFixed1 (js_divide (foldl (\<lambda>sum r. sum + vi_rating r) 0 (ed_reviews ed))
                               (int (length (ed_reviews ed))))
      else ''N/A'')"

text \<open>
  What the claim about the average speaks of: the ratings of an event's reviews in the
  database, their arithmetic mean as an exact number, and the number that a numeral with
  one decimal place denotes (digits, a point, one digit; \<open>None\<close> for any other text).
\<close>

definition event_ratings :: "uuid \<Rightarrow> database \<Rightarrow> int list" where
  "event_ratings event_id db =
     map rev_rating (filter (\<lambda>r. rev_event_id r = event_id) (reviews db))"

definition arithmetic_mean :: "int list \<Rightarrow> rat" where
  "arithmetic_mean ratings = of_int (sum_list ratings) / of_nat (length ratings)"

definition digit_value :: "char \<Rightarrow> nat option" where
  "digit_value = map_of
     [(CHR ''0'', 0), (CHR ''1'', 1), (CHR ''2'', 2), (CHR ''3'', 3), (CHR ''4'', 4),
      (CHR ''5'', 5), (CHR ''6'', 6), (CHR ''7'', 7), (CHR ''8'', 8), (CHR ''9'', 9)]"

fun read_digits :: "nat \<Rightarrow> string \<Rightarrow> nat option" where
  "read_digits acc [] = Some acc"
| "read_digits acc (c # cs) =
     (case digit_value c of None \<Rightarrow> None | Some d \<Rightarrow> read_digits (10 * acc + d) cs)"

definition one_decimal_value :: "string \<Rightarrow> rat option" where
  "one_decimal_value s =
     (if length s < 3 \<or> s ! (length s - 2) \<noteq> CHR ''.'' then None
      else (case (read_digits 0 (take (length s - 2) s), digit_value (s ! (length s - 1))) of
              (Some a, Some b) \<Rightarrow> Some (of_nat a + of_nat b / 10)
            | _ \<Rightarrow> None))"

section \<open>Trends\<close>

text \<open>
  Modelled from the spec: the calendar date of the trends range. No source file computes
  trends (the README names an endpoint
  \<^verbatim>\<open>GET /api/analytics/trends?start=YYYY-MM-DD&end=YYYY-MM-DD\<close>); the spec takes a start and
  an end date. A date is the number of its day since 1970-01-01 (proleptic Gregorian
  calendar).
\<close>

definition date :: "int \<Rightarrow> int \<Rightarrow> int \<Rightarrow> int" where
  "date y m d =
     (let y' = (if m \<le> 2 then y - 1 else y);
          era = y' div 400;
          yoe = y' - era * 400;
          doy = (153 * ((m + 9) mod 12) + 2) div 5 + d - 1;
          doe = yoe * 365 + yoe div 4 - yoe div 100 + doy
      in era * 146097 + doe - 719468)"

text \<open>
  Modelled from the spec: the day bucket of a timestamp (the spec's fixed granularity is
  the day). An instant is in milliseconds since 1970-01-01.
\<close>

definition day_of :: "timestamptz \<Rightarrow> int" where
  "day_of t = t div 86400000"

text \<open>
  Modelled from the spec: the trends aggregation, absent from the source files. The
  spec's words: entities are bucketed by the day their relevant timestamp falls on, over
  the inclusive range of days, sorted ascending by bucket date, and a bucket without
  activity is included with count 0. \<open>stamps\<close> are the relevant timestamps of the entities
  the caller may see.
\<close>

definition trends :: "int \<Rightarrow> int \<Rightarrow> timestamptz list \<Rightarrow> (int \<times> nat) list" where
  "trends start_date end_date stamps =
     map (\<lambda>d. (d, length (filter (\<lambda>t. day_of t = d) stamps))) [start_date..end_date]"

section \<open>A small database\<close>

text \<open>
  Three accounts; a public and a private event of the first account, both from 200 to 300;
  the second account's RSVP to, and review of, the private event, written at time 50.
\<close>

definition demo_profiles :: "profile list" where
  "demo_profiles =
     [\<lparr>p_id = 1, p_full_name = ''Ann'', p_bio = None, p_location = None,
       p_profile_picture = None, p_created_at = 0, p_updated_at = 0\<rparr>,
      \<lparr>p_id = 2, p_full_name = ''Bob'', p_bio = None, p_location = None,
       p_profile_picture = None, p_created_at = 0, p_updated_at = 0\<rparr>,
      \<lparr>p_id = 3, p_full_name = ''Anonymous User'', p_bio = None, p_location = None,
       p_profile_picture = None, p_created_at = 0, p_updated_at = 0\<rparr>]"

definition demo_public_event :: event where
  "demo_public_event =
     \<lparr>ev_id = 10, ev_title = ''Summer Music Festival'', ev_description = ''Open air concerts'',
      ev_organizer_id = 1, ev_location = ''City Park'', ev_start_time = 200, ev_end_time = 300,
      ev_is_public = True, ev_created_at = 10, ev_updated_at = 10\<rparr>"

definition demo_private_event :: event where
  "demo_private_event =
     \<lparr>ev_id = 11, ev_title = ''Board meeting'', ev_description = ''Members only'',
      ev_organizer_id = 1, ev_location = ''Room 4'', ev_start_time = 200, ev_end_time = 300,
      ev_is_public = False, ev_created_at = 10, ev_updated_at = 10\<rparr>"

definition demo_rsvp :: rsvp where
  "demo_rsvp =
     \<lparr>rsvp_id = 20, rsvp_event_id = 11, rsvp_user_id = 2, rsvp_state = going,
      rsvp_created_at = 50, rsvp_updated_at = 50\<rparr>"

definition demo_review :: review where
  "demo_review =
     \<lparr>rev_id = 30, rev_event_id = 11, rev_user_id = 2, rev_rating = 4,
      rev_comment = ''A lovely evening'', rev_created_at = 50, rev_updated_at = 50\<rparr>"

definition demo_events_db :: database where
  "demo_events_db =
     \<lparr>profiles = demo_profiles, events = [demo_public_event, demo_private_event],
      rsvps = [], reviews = []\<rparr>"

definition demo_db :: database where
  "demo_db =
     \<lparr>profiles = demo_profiles, events = [demo_public_event, demo_private_event],
      rsvps = [demo_rsvp], reviews = [demo_review]\<rparr>"

text \<open>
  A filled-in creation form whose end (200) is before its start (300); and the zone of a
  browser and a database that both keep the time without zones.
\<close>

definition demo_form :: event_form where
  "demo_form = \<lparr>f_title = ''Picnic'', f_description = ''Bring your own food'',
     f_location = ''City Park'', f_start_time = WallClock 300, f_end_time = WallClock 200\<rparr>"

definition utc :: zone where
  "utc w = w"

text \<open>
  A browser in New York in March 2021, in milliseconds: until 2021-03-14 the clock is five
  hours behind, from 03:00 of that day four hours; the hour from 02:00 to 03:00 is not on
  the clock, and \<^verbatim>\<open>new Date\<close> reads it with the five hours. The form: from 03:00 to 02:30
  of that day.
\<close>

definition new_york_march_2021 :: zone where
  "new_york_march_2021 w = (if w < 1615690800000 then w + 18000000 else w + 14400000)"

definition demo_gap_form :: event_form where
  "demo_gap_form = \<lparr>f_title = ''Picnic'', f_description = ''Bring your own food'',
     f_location = ''City Park'', f_start_time = WallClock 1615690800000,
     f_end_time = WallClock 1615689000000\<rparr>"

text \<open>
  The small database after the event: at times 400 to 402 the three accounts review the
  public event and rate it 5, 3 and 4. And an event page with any given ratings.
\<close>

definition demo_reviewed_db :: database where
  "demo_reviewed_db =
     \<lparr>profiles = demo_profiles, events = [demo_public_event, demo_private_event], rsvps = [],
      reviews =
        [\<lparr>rev_id = 31, rev_event_id = 10, rev_user_id = 1, rev_rating = 5,
          rev_comment = ''What a great event'', rev_created_at = 400, rev_updated_at = 400\<rparr>,
         \<lparr>rev_id = 32, rev_event_id = 10, rev_user_id = 2, rev_rating = 3,
          rev_comment = ''It was all right'', rev_created_at = 401, rev_updated_at = 401\<rparr>,
         \<lparr>rev_id = 33, rev_event_id = 10, rev_user_id = 3, rev_rating = 4,
          rev_comment = ''Well organised, thanks'', rev_created_at = 402, rev_updated_at = 402\<rparr>]\<rparr>"

definition rated :: "int list \<Rightarrow> event_details" where
  "rated ratings =
     \<lparr>ed_event = demo_public_event, ed_organizer = None, ed_rsvps = [],
      ed_reviews = map (\<lambda>k. \<lparr>vi_id = 0, vi_rating = k, vi_comment = ''Well organised, thanks'',
        vi_user_id = 0, vi_created_at = 400, vi_user = None\<rparr>) ratings\<rparr>"

text \<open>
  The third account opens the page of the public event and answers twice: first
  \<^verbatim>\<open>going\<close> at time 60, then \<^verbatim>\<open>maybe\<close> at time 70.
\<close>

definition demo_first_click :: "rsvp_outcome \<times> page \<times> database" where
  "demo_first_click =
     handleRsvp (Some 3) 10 going 21 60
       (snd (fetchEvent (Some 3) 10 demo_events_db initial_page)) demo_events_db"

definition demo_second_click :: "rsvp_outcome \<times> page \<times> database" where
  "demo_second_click =
     handleRsvp (Some 3) 10 maybe 22 70 (fst (snd demo_first_click)) (snd (snd demo_first_click))"

section \<open>Auxiliary facts\<close>

lemma round_half_even_err: "\<bar>of_int (round_half_even q) - q\<bar> \<le> 1 / 2"
  unfolding round_half_even_def Let_def by (auto simp: abs_if) linarith+

lemma binade_le:
  assumes "0 < q"
  shows "2 powi (binade q) \<le> q"
proof -
  obtain n d where nd: "quotient_of q = (n, d)" by (cases "quotient_of q")
  have d: "0 < d" using nd by (rule quotient_of_denom_pos)
  have q: "q = of_int n / of_int d" using nd by (rule quotient_of_div)
  have n: "0 < n" using assms d q by (simp add: zero_less_divide_iff)
  define k where "k = bitlen n - bitlen d"
  show ?thesis
  proof (cases "2 powi k \<le> q")
    case True
    then show ?thesis by (simp add: binade_def nd k_def)
  next
    case False
    then have b: "binade q = k - 1" by (simp add: binade_def nd k_def)
    have n1: "(2::int) ^ nat (bitlen n - 1) \<le> n" using bitlen_bounds[OF n] by simp
    have d1: "d < 2 ^ nat (bitlen d)" using bitlen_bounds[OF d] by simp
    have bn: "0 < bitlen n" using n by (simp add: bitlen_eq_zero_iff less_le bitlen_nonneg)
    have bd: "0 < bitlen d" using d by (simp add: bitlen_eq_zero_iff less_le bitlen_nonneg)
    have n2: "(2::rat) powi (bitlen n - 1) \<le> of_int n"
    proof -
      have "(of_int ((2::int) ^ nat (bitlen n - 1)) :: rat) \<le> of_int n" using n1 by (simp only: of_int_le_iff)
      then show ?thesis using bn by (simp add: power_int_def)
    qed
    have d2: "(of_int d :: rat) \<le> 2 powi (bitlen d)"
    proof -
      have "(of_int d :: rat) \<le> of_int ((2::int) ^ nat (bitlen d))" using d1 by (simp only: of_int_le_iff less_imp_le)
      then show ?thesis using bd by (simp add: power_int_def)
    qed
    have "(2::rat) powi (k - 1) * of_int d \<le> 2 powi (k - 1) * 2 powi (bitlen d)"
      using d2 by (simp add: mult_left_mono)
    also have "\<dots> = 2 powi (bitlen n - 1)"
      by (simp add: k_def power_int_add[symmetric])
    also have "\<dots> \<le> of_int n" by (rule n2)
    finally have "(2::rat) powi (k - 1) \<le> of_int n / of_int d"
      using d by (simp add: pos_le_divide_eq)
    then have "(2::rat) powi (k - 1) \<le> q" by (simp only: q)
    then show ?thesis by (simp only: b)
  qed
qed

lemma fl64_err:
  assumes "0 < q"
  shows "\<bar>fl64 q - q\<bar> \<le> q / 2 ^ 53"
proof -
  define e where "e = binade q"
  define s :: rat where "s = 2 powi (52 - e)"
  have s: "0 < s" by (simp add: s_def)
  have f: "fl64 q = of_int (round_half_even (q * s)) / s"
    using assms by (simp add: fl64_def Let_def s_def e_def)
  have "\<bar>fl64 q - q\<bar> = \<bar>of_int (round_half_even (q * s)) - q * s\<bar> / s"
    using s by (simp add: f field_simps abs_if)
  also have "\<dots> \<le> (1 / 2) / s"
    using s round_half_even_err[of "q * s"] by (intro divide_right_mono) simp_all
  also have "\<dots> = 2 powi e / 2 ^ 53"
    by (simp add: s_def power_int_diff)
  also have "\<dots> \<le> q / 2 ^ 53"
    using binade_le[OF assms] by (simp add: e_def divide_right_mono)
  finally show ?thesis .
qed


lemma binade_upper:
  assumes "0 < q"
  shows "q < 2 powi (binade q + 1)"
proof -
  obtain n d where nd: "quotient_of q = (n, d)" by (cases "quotient_of q")
  have d: "0 < d" using nd by (rule quotient_of_denom_pos)
  have q: "q = of_int n / of_int d" using nd by (rule quotient_of_div)
  have n: "0 < n" using assms d q by (simp add: zero_less_divide_iff)
  define k where "k = bitlen n - bitlen d"
  show ?thesis
  proof (cases "2 powi k \<le> q")
    case False
    then show ?thesis by (simp add: binade_def nd k_def)
  next
    case True
    then have b: "binade q = k" by (simp add: binade_def nd k_def)
    have n1: "n < 2 ^ nat (bitlen n)" using bitlen_bounds[OF n] by simp
    have d1: "(2::int) ^ nat (bitlen d - 1) \<le> d" using bitlen_bounds[OF d] by simp
    have bn: "0 < bitlen n" using n by (simp add: bitlen_eq_zero_iff less_le bitlen_nonneg)
    have bd: "0 < bitlen d" using d by (simp add: bitlen_eq_zero_iff less_le bitlen_nonneg)
    have n2: "(of_int n :: rat) < 2 powi (bitlen n)"
    proof -
      have "(of_int n :: rat) < of_int ((2::int) ^ nat (bitlen n))"
        using n1 by (simp only: of_int_less_iff)
      then show ?thesis using bn by (simp add: power_int_def)
    qed
    have d2: "(2::rat) powi (bitlen d - 1) \<le> of_int d"
    proof -
      have "(of_int ((2::int) ^ nat (bitlen d - 1)) :: rat) \<le> of_int d"
        using d1 by (simp only: of_int_le_iff)
      then show ?thesis using bd by (simp add: power_int_def)
    qed
    have "(of_int n :: rat) < 2 powi (bitlen n)" by (rule n2)
    also have "\<dots> = 2 powi (k + 1) * 2 powi (bitlen d - 1)"
      by (simp add: k_def power_int_add[symmetric])
    also have "\<dots> \<le> 2 powi (k + 1) * of_int d"
      using d2 by (simp add: mult_left_mono)
    finally have "of_int n / of_int d < (2::rat) powi (k + 1)"
      using d by (simp add: pos_divide_less_eq)
    then have "q < (2::rat) powi (k + 1)" by (simp only: q)
    then show ?thesis by (simp only: b)
  qed
qed

text \<open>Doubles that are known: 0.1, 1/3 and 4.05 are not exact, 4.25 and 0.5 are.\<close>

lemma fl64_examples:
  "fl64 4 = 4" "fl64 (17 / 4) = 17 / 4" "fl64 (1 / 2) = 1 / 2"
  "fl64 (81 / 20) = 4559894622712627 / 2 ^ 50"
  "fl64 (1 / 10) = 3602879701896397 / 2 ^ 55"
  "fl64 (- (1 / 3)) = - (6004799503160661 / 2 ^ 54)"
  by code_simp+

lemma tenths_js_divide_nearest:
  assumes L: "0 < L" and S: "0 < S" and small: "20 * S < 2 ^ 53"
  shows "\<bar>of_int (tenths (js_divide S L)) / 10 - (of_int S / of_int L :: rat)\<bar> \<le> 1 / 20"
proof -
  define q :: rat where "q = of_int S / of_int L"
  define x where "x = fl64 q"
  define n where "n = tenths x"
  have q: "0 < q" using L S by (simp add: q_def)
  have err: "\<bar>x - q\<bar> \<le> q / 2 ^ 53" unfolding x_def by (rule fl64_err[OF q])
  have "q / 2 ^ 53 < q" using q by simp
  then have x: "0 < x" using err by linarith
  have n1: "of_int n \<le> x * 10 + 1 / 2" and n2: "x * 10 + 1 / 2 < of_int n + 1"
    using x by (simp_all add: n_def tenths_def abs_of_pos) linarith
  have Lq: "of_int L * q = of_int S" using L by (simp add: q_def)
  have "\<bar>of_int n - 10 * q\<bar> \<le> 1 / 2 + 10 * (q / 2 ^ 53)"
    using n1 n2 err by linarith
  then have "of_int L * \<bar>of_int n - 10 * q\<bar> \<le> of_int L * (1 / 2 + 10 * (q / 2 ^ 53))"
    using L by (simp add: mult_left_mono)
  also have "of_int L * \<bar>of_int n - 10 * q\<bar> = \<bar>of_int (n * L) - 10 * of_int S\<bar>"
  proof -
    have "of_int L * \<bar>of_int n - 10 * q\<bar> = \<bar>of_int L * (of_int n - 10 * q)\<bar>"
      using L by (simp add: abs_mult)
    also have "of_int L * (of_int n - 10 * q) = of_int (n * L) - 10 * (of_int L * q)"
      by (simp add: algebra_simps)
    finally show ?thesis by (simp only: Lq)
  qed
  also have "of_int L * (1 / 2 + 10 * (q / 2 ^ 53)) = of_int L / 2 + 10 * of_int S / 2 ^ 53"
    using Lq by (simp add: algebra_simps)
  finally have "2 * \<bar>of_int (n * L) - 10 * of_int S\<bar> \<le> (of_int L :: rat) + of_int (20 * S) / 2 ^ 53"
    by simp
  moreover have "(of_int (20 * S) :: rat) / 2 ^ 53 < 1"
  proof -
    have "(of_int (20 * S) :: rat) < of_int (2 ^ 53)" using small by (simp only: of_int_less_iff)
    then show ?thesis by simp
  qed
  ultimately have "(of_int (2 * \<bar>n * L - 10 * S\<bar>) :: rat) < of_int (L + 1)"
    by simp
  then have "2 * \<bar>n * L - 10 * S\<bar> < L + 1" by (simp only: of_int_less_iff)
  then have i: "2 * \<bar>n * L - 10 * S\<bar> \<le> L" by simp
  have "(of_int (2 * \<bar>n * L - 10 * S\<bar>) :: rat) \<le> of_int L" using i by (simp only: of_int_le_iff)
  then have r: "2 * \<bar>of_int n * of_int L - 10 * of_int S\<bar> \<le> (of_int L :: rat)" by simp
  have "\<bar>of_int n / 10 - q\<bar> = \<bar>of_int n * of_int L - 10 * of_int S\<bar> / (10 * of_int L)"
  proof -
    have "of_int n / 10 - q = (of_int n * of_int L - 10 * of_int S) / (10 * of_int L)"
      using L by (simp add: q_def field_simps)
    then have "\<bar>of_int n / 10 - q\<bar> =
        \<bar>of_int n * of_int L - 10 * of_int S\<bar> / \<bar>10 * (of_int L :: rat)\<bar>"
      by (simp only: abs_divide)
    then show ?thesis using L by simp
  qed
  also have "\<dots> \<le> 1 / 20"
    using r L by (simp add: field_simps)
  finally show ?thesis by (simp add: n_def x_def q_def js_divide_def)
qed

lemma update_rsvp_status_keys:
  "map (\<lambda>r. (rsvp_event_id r, rsvp_user_id r)) (rsvps (update_rsvp_status uid now event_id user_id status db))
     = map (\<lambda>r. (rsvp_event_id r, rsvp_user_id r)) (rsvps db)"
  by (induction "rsvps db" arbitrary: db) (auto simp: update_rsvp_status_def)

lemma update_events_Inr:
  assumes "update_events uid now cond assign db = Inr db'"
  shows "profiles db' = profiles db \<and> rsvps db' = rsvps db \<and> reviews db' = reviews db \<and>
         distinct (map ev_id (events db')) \<and>
         (\<forall>e \<in> set (events db'). e \<in> set (events db) \<or> ev_start_time e < ev_end_time e)"
proof -
  define hit where "hit = (\<lambda>e. uid = Some (ev_organizer_id e) \<and> cond e)"
  define new where "new = (\<lambda>e. (assign e)\<lparr>ev_updated_at := now\<rparr>)"
  from assms have d: "db' = db\<lparr>events := map (\<lambda>e. if hit e then new e else e) (events db)\<rparr>"
    and u: "distinct (map ev_id (map (\<lambda>e. if hit e then new e else e) (events db)))"
    and c: "\<not> list_ex (\<lambda>e. \<not> ev_end_time e > ev_start_time e) (map new (filter hit (events db)))"
    unfolding update_events_def Let_def hit_def new_def by (auto split: if_splits)
  have "e' \<in> set (events db) \<or> ev_start_time e' < ev_end_time e'"
    if "e' \<in> set (map (\<lambda>e. if hit e then new e else e) (events db))" for e'
  proof -
    from that obtain e where e: "e \<in> set (events db)" "e' = (if hit e then new e else e)"
      by auto
    show ?thesis
    proof (cases "hit e")
      case True
      with e have "e' \<in> set (map new (filter hit (events db)))" by auto
      with c show ?thesis by (auto simp: list_ex_iff)
    next
      case False
      with e show ?thesis by simp
    qed
  qed
  with u show ?thesis by (simp add: d)
qed

lemma update_rsvps_Inr:
  assumes "update_rsvps uid now cond assign db = Inr db'"
  shows "profiles db' = profiles db \<and> events db' = events db \<and> reviews db' = reviews db \<and>
         distinct (map (\<lambda>r. (rsvp_event_id r, rsvp_user_id r)) (rsvps db'))"
  using assms unfolding update_rsvps_def Let_def by (auto split: if_splits)

lemma update_reviews_Inr:
  assumes "update_reviews uid now cond assign db = Inr db'"
  shows "profiles db' = profiles db \<and> events db' = events db \<and> rsvps db' = rsvps db \<and>
         distinct (map (\<lambda>r. (rev_event_id r, rev_user_id r)) (reviews db')) \<and>
         (\<forall>r \<in> set (reviews db'). r \<in> set (reviews db) \<or> (1 \<le> rev_rating r \<and> rev_rating r \<le> 5))"
proof -
  define hit where "hit = (\<lambda>r. uid = Some (rev_user_id r) \<and> cond r)"
  define new where "new = (\<lambda>r. (assign r)\<lparr>rev_updated_at := now\<rparr>)"
  from assms have d: "db' = db\<lparr>reviews := map (\<lambda>r. if hit r then new r else r) (reviews db)\<rparr>"
    and u: "distinct (map (\<lambda>r. (rev_event_id r, rev_user_id r))
              (map (\<lambda>r. if hit r then new r else r) (reviews db)))"
    and c: "\<not> list_ex (\<lambda>r. \<not> (rev_rating r \<ge> 1 \<and> rev_rating r \<le> 5))
              (map new (filter hit (reviews db)))"
    unfolding update_reviews_def Let_def hit_def new_def by (auto split: if_splits)
  have "r' \<in> set (reviews db) \<or> (1 \<le> rev_rating r' \<and> rev_rating r' \<le> 5)"
    if "r' \<in> set (map (\<lambda>r. if hit r then new r else r) (reviews db))" for r'
  proof -
    from that obtain r where r: "r \<in> set (reviews db)" "r' = (if hit r then new r else r)"
      by auto
    show ?thesis
    proof (cases "hit r")
      case True
      with r have "r' \<in> set (map new (filter hit (reviews db)))" by auto
      with c show ?thesis by (auto simp: list_ex_iff)
    next
      case False
      with r show ?thesis by simp
    qed
  qed
  with u show ?thesis by (simp add: d)
qed

lemma reachable_invariants:
  "reachable db \<Longrightarrow>
     (\<forall>e \<in> set (events db). ev_start_time e < ev_end_time e) \<and>
     distinct (map ev_id (events db)) \<and>
     distinct (map (\<lambda>r. (rsvp_event_id r, rsvp_user_id r)) (rsvps db)) \<and>
     distinct (map (\<lambda>r. (rev_event_id r, rev_user_id r)) (reviews db)) \<and>
     (\<forall>r \<in> set (reviews db). 1 \<le> rev_rating r \<and> rev_rating r \<le> 5)"
proof (induction rule: reachable.induct)
  case start
  then show ?case by (simp add: empty_db_def)
next
  case (new_user db new_id full_name now db')
  then show ?case by (auto simp: handle_new_user_def split: if_splits)
next
  case (profile_updated db uid now profile_id full_name bio location)
  then show ?case by (simp add: update_profile_def)
next
  case (event_inserted db uid new_id now title description location start_time end_time
      is_public organizer_id db')
  then show ?case by (auto simp: insert_event_def split: if_splits)
next
  case (event_deleted db uid event_id)
  then show ?case by (auto simp: delete_event_def Let_def distinct_map_filter)
next
  case (rsvp_inserted db uid new_id now event_id user_id status db')
  then show ?case by (auto simp: insert_rsvp_def split: if_splits)
next
  case (rsvp_updated db uid now event_id user_id status)
  then show ?case
    by (simp only: update_rsvp_status_keys) (simp add: update_rsvp_status_def)
next
  case (review_inserted db uid new_id now event_id user_id rating comment db')
  then show ?case by (auto simp: insert_review_def split: if_splits)
next
  case (events_updated db uid now event_cond event_assign db')
  from update_events_Inr[OF events_updated.hyps(2)] events_updated.IH show ?case by auto
next
  case (rsvps_updated db uid now rsvp_cond rsvp_assign db')
  from update_rsvps_Inr[OF rsvps_updated.hyps(2)] rsvps_updated.IH show ?case by auto
next
  case (reviews_updated db uid now review_cond review_assign db')
  from update_reviews_Inr[OF reviews_updated.hyps(2)] reviews_updated.IH show ?case by auto
next
  case (rsvps_deleted db uid rsvp_cond)
  then show ?case by (auto simp: delete_rsvps_def distinct_map_filter)
next
  case (reviews_deleted db uid review_cond)
  then show ?case by (auto simp: delete_reviews_def distinct_map_filter)
next
  case (user_deleted db account)
  then show ?case by (auto simp: delete_user_def Let_def distinct_map_filter)
qed

lemma reachable_demo_events_db: "reachable demo_events_db"
proof -
  define d1 where "d1 = empty_db\<lparr>profiles := [demo_profiles ! 0]\<rparr>"
  define d2 where "d2 = empty_db\<lparr>profiles := [demo_profiles ! 0, demo_profiles ! 1]\<rparr>"
  define d3 where "d3 = empty_db\<lparr>profiles := demo_profiles\<rparr>"
  define d4 where "d4 = d3\<lparr>events := [demo_public_event]\<rparr>"
  have "reachable d1"
    by (rule reachable.new_user[OF reachable.start, of 1 "Some ''Ann''" 0])
       (simp add: handle_new_user_def empty_db_def d1_def demo_profiles_def)
  then have "reachable d2"
    by (rule reachable.new_user[of _ 2 "Some ''Bob''" 0])
       (simp add: handle_new_user_def empty_db_def d1_def d2_def demo_profiles_def)
  then have "reachable d3"
    by (rule reachable.new_user[of _ 3 None 0])
       (simp add: handle_new_user_def empty_db_def d2_def d3_def demo_profiles_def)
  then have "reachable d4"
    by (rule reachable.event_inserted[of _ "Some 1" 10 10 "''Summer Music Festival''"
          "''Open air concerts''" "''City Park''" 200 300 True 1])
       (simp add: insert_event_def empty_db_def d3_def d4_def demo_profiles_def
          demo_public_event_def)
  then show ?thesis
    by (rule reachable.event_inserted[of _ "Some 1" 11 10 "''Board meeting''"
          "''Members only''" "''Room 4''" 200 300 False 1])
       (simp add: insert_event_def empty_db_def d3_def d4_def demo_profiles_def
          demo_public_event_def demo_private_event_def demo_events_db_def)
qed

lemma reachable_demo_db: "reachable demo_db"
proof -
  define d where "d = demo_events_db\<lparr>rsvps := [demo_rsvp]\<rparr>"
  have "reachable d"
    by (rule reachable.rsvp_inserted[OF reachable_demo_events_db, of "Some 2" 20 50 11 2 going])
       (simp add: insert_rsvp_def d_def demo_events_db_def demo_profiles_def
          demo_public_event_def demo_private_event_def demo_rsvp_def)
  then show ?thesis
    by (rule reachable.review_inserted[of _ "Some 2" 30 50 11 2 4 "''A lovely evening''"])
       (simp add: insert_review_def d_def demo_events_db_def demo_profiles_def
          demo_public_event_def demo_private_event_def demo_review_def demo_db_def)
qed

lemma select_event_single_Inr:
  "select_event_single uid event_id db = Inr data \<Longrightarrow>
     \<exists>e. data = event_with_embeds uid db e \<and> ev_id e = event_id \<and> e \<in> set (events db) \<and>
         event_visible uid e"
proof -
  assume a: "select_event_single uid event_id db = Inr data"
  then obtain e where f: "filter (\<lambda>e. ev_id e = event_id) (select_events uid db) = [e]"
    and d: "data = event_with_embeds uid db e"
    by (auto simp: select_event_single_def split: list.splits)
  have "e \<in> set (filter (\<lambda>e. ev_id e = event_id) (select_events uid db))" by (simp add: f)
  then have "ev_id e = event_id \<and> e \<in> set (events db) \<and> event_visible uid e"
    by (auto simp: select_events_def)
  with d show ?thesis by blast
qed

lemma eventSchema_parse_Inr:
  "eventSchema_parse data = Inr v \<Longrightarrow>
     f_start_time v = f_start_time data \<and> f_end_time v = f_end_time data \<and>
     f_title v = trim (f_title data) \<and> f_description v = trim (f_description data) \<and>
     f_location v = trim (f_location data)"
  by (auto simp: eventSchema_parse_def string_trim_min_max_def Let_def split: if_splits)

section \<open>Event times (C3)\<close>

text \<open>
  C3, as the code has it. In every state the database can reach, each stored event ends
  strictly after it starts (the table's \<^verbatim>\<open>valid_time_range\<close> check). An insert with
  \<open>end_time \<le> start_time\<close> stores nothing, and fails on that check when its organizer is
  the caller. A creation form whose end is not after its start, in the browser's reading
  or in the database's, leaves the database as it was. When a user is signed in and the
  form passes \<^verbatim>\<open>eventSchema\<close>, the outcome is the message
  \<^verbatim>\<open>"End time must be after start time"\<close> if the browser reads the end as not after the
  start; if only the database reads it so, the insert fails on \<^verbatim>\<open>valid_time_range\<close> and
  the outcome is \<^verbatim>\<open>"Failed to create event"\<close>.
\<close>

theorem event_time_range:
  "(reachable db \<longrightarrow> (\<forall>ev \<in> set (events db). ev_end_time ev > ev_start_time ev)) \<and>
   (end_time \<le> start_time \<longrightarrow>
      (\<exists>err. insert_event uid new_id now title description location start_time end_time
                is_public organizer_id db = Inl err) \<and>
      (uid = Some organizer_id \<longrightarrow>
         insert_event uid new_id now title description location start_time end_time
           is_public organizer_id db = Inl (CheckViolation ''events'' ''valid_time_range''))) \<and>
   (f_start_time data = WallClock s \<and> f_end_time data = WallClock e \<and>
    (browser_zone e \<le> browser_zone s \<or> database_zone e \<le> database_zone s) \<longrightarrow>
      snd (handleSubmit browser_zone database_zone user isPublic data new_id now db) = db) \<and>
   (f_start_time data = WallClock s \<and> f_end_time data = WallClock e \<and>
    user \<noteq> None \<and> (\<exists>v. eventSchema_parse data = Inr v) \<longrightarrow>
      (browser_zone e \<le> browser_zone s \<longrightarrow>
         fst (handleSubmit browser_zone database_zone user isPublic data new_id now db)
           = EndNotAfterStart) \<and>
      (\<not> browser_zone e \<le> browser_zone s \<and> database_zone e \<le> database_zone s \<longrightarrow>
         fst (handleSubmit browser_zone database_zone user isPublic data new_id now db)
           = CreateFailed (CheckViolation ''events'' ''valid_time_range'')))"
proof (intro conjI impI)
  assume "reachable db"
  then show "\<forall>ev \<in> set (events db). ev_end_time ev > ev_start_time ev"
    using reachable_invariants by blast
next
  assume "end_time \<le> start_time"
  then show "\<exists>err. insert_event uid new_id now title description location start_time end_time
                is_public organizer_id db = Inl err"
    by (simp add: insert_event_def)
next
  assume "end_time \<le> start_time" "uid = Some organizer_id"
  then show "insert_event uid new_id now title description location start_time end_time
           is_public organizer_id db = Inl (CheckViolation ''events'' ''valid_time_range'')"
    by (simp add: insert_event_def)
next
  assume t: "f_start_time data = WallClock s \<and> f_end_time data = WallClock e \<and>
    (browser_zone e \<le> browser_zone s \<or> database_zone e \<le> database_zone s)"
  show "snd (handleSubmit browser_zone database_zone user isPublic data new_id now db) = db"
  proof (cases user)
    case None
    then show ?thesis by (simp add: handleSubmit_def)
  next
    case (Some u)
    show ?thesis
    proof (cases "eventSchema_parse data")
      case (Inl issues)
      with Some show ?thesis by (simp add: handleSubmit_def)
    next
      case (Inr v)
      from eventSchema_parse_Inr[OF Inr] t Some Inr show ?thesis
        by (auto simp: handleSubmit_def post_event_def insert_event_def split: sum.splits)
    qed
  qed
next
  assume t: "f_start_time data = WallClock s \<and> f_end_time data = WallClock e \<and>
    user \<noteq> None \<and> (\<exists>v. eventSchema_parse data = Inr v)"
    and le: "browser_zone e \<le> browser_zone s"
  from t obtain u v where u: "user = Some u" and v: "eventSchema_parse data = Inr v"
    by auto
  show "fst (handleSubmit browser_zone database_zone user isPublic data new_id now db)
           = EndNotAfterStart"
    using le t eventSchema_parse_Inr[OF v] by (simp add: handleSubmit_def u v)
next
  assume t: "f_start_time data = WallClock s \<and> f_end_time data = WallClock e \<and>
    user \<noteq> None \<and> (\<exists>v. eventSchema_parse data = Inr v)"
    and le: "\<not> browser_zone e \<le> browser_zone s \<and> database_zone e \<le> database_zone s"
  from t obtain u v where u: "user = Some u" and v: "eventSchema_parse data = Inr v"
    by auto
  show "fst (handleSubmit browser_zone database_zone user isPublic data new_id now db)
           = CreateFailed (CheckViolation ''events'' ''valid_time_range'')"
    using le t eventSchema_parse_Inr[OF v]
    by (simp add: handleSubmit_def u v post_event_def insert_event_def)
qed

text \<open>
  C3, witness: the small database is reachable and its events end after they start; the
  insert of an event from 300 to 200 by its organizer fails on \<^verbatim>\<open>valid_time_range\<close>; the
  form with these times, by a signed-in user, gets the time-range message and changes
  nothing. The form from 03:00 to 02:30 of 2021-03-14, sent from New York to a database
  without zones, passes the browser's comparison (02:30 is read as 07:30, 03:00 as 07:00
  universal time), fails on \<^verbatim>\<open>valid_time_range\<close> and changes nothing.
\<close>

theorem event_time_range_witness:
  "reachable demo_events_db \<and>
   list_all (\<lambda>ev. ev_end_time ev > ev_start_time ev) (events demo_events_db) \<and>
   insert_event (Some 1) 12 10 ''Picnic'' ''Bring your own food'' ''City Park'' 300 200 True 1
     demo_events_db = Inl (CheckViolation ''events'' ''valid_time_range'') \<and>
   handleSubmit utc utc (Some 1) True demo_form 12 10 demo_events_db
     = (EndNotAfterStart, demo_events_db) \<and>
   new_york_march_2021 1615689000000 = 1615707000000 \<and>
   new_york_march_2021 1615690800000 = 1615705200000 \<and>
   handleSubmit new_york_march_2021 utc (Some 1) True demo_gap_form 12 10 demo_events_db
     = (CreateFailed (CheckViolation ''events'' ''valid_time_range''), demo_events_db)"
proof -
  have p: "eventSchema_parse demo_form = Inr demo_form"
    by (simp add: eventSchema_parse_def string_trim_min_max_def Let_def demo_form_def trim_def
        is_space_def)
  have t: "f_start_time demo_form = WallClock 300 \<and> f_end_time demo_form = WallClock 200"
    by (simp add: demo_form_def)
  have pg: "eventSchema_parse demo_gap_form = Inr demo_gap_form"
    by (simp add: eventSchema_parse_def string_trim_min_max_def Let_def demo_gap_form_def
        trim_def is_space_def)
  have tg: "f_start_time demo_gap_form = WallClock 1615690800000 \<and>
      f_end_time demo_gap_form = WallClock 1615689000000"
    by (simp add: demo_gap_form_def)
  have z: "new_york_march_2021 1615689000000 = 1615707000000"
    "new_york_march_2021 1615690800000 = 1615705200000"
    by (simp_all add: new_york_march_2021_def)
  note plain = event_time_range[of demo_events_db 200 300 "Some 1" 12 10 "''Picnic''"
      "''Bring your own food''" "''City Park''" True 1 demo_form 300 200 utc utc "Some 1" True]
  note gap = event_time_range[of demo_events_db 200 300 "Some 1" 12 10 "''Picnic''"
      "''Bring your own food''" "''City Park''" True 1 demo_gap_form 1615690800000
      1615689000000 new_york_march_2021 utc "Some 1" True]
  from plain reachable_demo_events_db p t
  have a: "reachable demo_events_db \<and>
      list_all (\<lambda>ev. ev_end_time ev > ev_start_time ev) (events demo_events_db) \<and>
      insert_event (Some 1) 12 10 ''Picnic'' ''Bring your own food'' ''City Park'' 300 200 True 1
        demo_events_db = Inl (CheckViolation ''events'' ''valid_time_range'') \<and>
      handleSubmit utc utc (Some 1) True demo_form 12 10 demo_events_db
        = (EndNotAfterStart, demo_events_db)"
    by (simp add: list_all_iff prod_eq_iff utc_def)
  from gap pg tg z
  have b: "handleSubmit new_york_march_2021 utc (Some 1) True demo_gap_form 12 10 demo_events_db
     = (CreateFailed (CheckViolation ''events'' ''valid_time_range''), demo_events_db)"
    by (simp add: prod_eq_iff utc_def)
  from a b z show ?thesis by simp
qed

text \<open>
  C3 as stated fails: a creation attempt whose end (200) is before its start (300) and
  whose title is \<^verbatim>\<open>"ab"\<close> is answered with the title's validation message, not with the
  time-range message; the schema is checked first.
\<close>

theorem short_title_precedes_time_range:
  "fst (handleSubmit utc utc (Some 1) True (demo_form\<lparr>f_title := ''ab''\<rparr>) 12 10 demo_events_db)
     = Invalid (too_small ''title'' (Some ''Title must be at least 3 characters'')) \<and>
   fst (handleSubmit utc utc (Some 1) True (demo_form\<lparr>f_title := ''ab''\<rparr>) 12 10 demo_events_db)
     \<noteq> EndNotAfterStart \<and>
   f_end_time (demo_form\<lparr>f_title := ''ab''\<rparr>) = WallClock 200 \<and>
   f_start_time (demo_form\<lparr>f_title := ''ab''\<rparr>) = WallClock 300 \<and>
   utc 200 \<le> utc 300"
  by (simp add: handleSubmit_def eventSchema_parse_def string_trim_min_max_def Let_def
      demo_form_def trim_def is_space_def utc_def)

section \<open>Facts about the review handler\<close>

lemma reviewSchema_parse_Inr_iff:
  "(reviewSchema_parse rating comment = Inr (r, c)) =
     (r = rating \<and> c = trim comment \<and> 1 \<le> rating \<and> rating \<le> 5 \<and>
      10 \<le> length (trim comment) \<and> length (trim comment) \<le> 1000)"
  by (auto simp: reviewSchema_parse_def string_trim_min_max_def Let_def)

lemma reviewSchema_parse_Inl_iff:
  "(\<exists>issues. reviewSchema_parse rating comment = Inl issues) =
     (\<not> (1 \<le> rating \<and> rating \<le> 5 \<and>
      10 \<le> length (trim comment) \<and> length (trim comment) \<le> 1000))"
  by (auto simp: reviewSchema_parse_def string_trim_min_max_def Let_def)

lemma duplicate_message: "str_includes (message (UniqueViolation c)) ''duplicate''"
proof -
  have "prefix ''duplicate'' (message (UniqueViolation c))" by simp
  then show ?thesis unfolding str_includes_def by (rule prefix_imp_sublist)
qed

lemma no_duplicate_in_review_messages:
  "\<not> str_includes (message (ForeignKeyViolation ''reviews'' ''reviews_event_id_fkey'')) ''duplicate''"
  "\<not> str_includes (message (ForeignKeyViolation ''reviews'' ''reviews_user_id_fkey'')) ''duplicate''"
  "\<not> str_includes (message (CheckViolation ''reviews'' ''reviews_rating_check'')) ''duplicate''"
  "\<not> str_includes (message (RlsViolation ''reviews'')) ''duplicate''"
  by (simp_all add: str_includes_def sublist_code)

lemma handleSubmitReview_invalid:
  assumes "\<not> (1 \<le> rating \<and> rating \<le> 5 \<and> 10 \<le> length (trim comment) \<and> length (trim comment) \<le> 1000)"
  shows "\<exists>issue. handleSubmitReview (Some u) event_id rating comment new_id now db = (ReviewInvalid issue, db)"
proof -
  from assms obtain issues where "reviewSchema_parse rating comment = Inl issues"
    using reviewSchema_parse_Inl_iff by blast
  then show ?thesis by (simp add: handleSubmitReview_def)
qed

lemma handleSubmitReview_valid:
  assumes "1 \<le> rating" "rating \<le> 5" "10 \<le> length (trim comment)" "length (trim comment) \<le> 1000"
  shows "handleSubmitReview (Some u) event_id rating comment new_id now db =
     (if new_id \<in> set (map rev_id (reviews db)) \<or>
         (event_id, u) \<in> set (map (\<lambda>r. (rev_event_id r, rev_user_id r)) (reviews db))
      then (AlreadyReviewed, db)
      else if event_id \<notin> set (map ev_id (events db))
      then (ReviewFailed (ForeignKeyViolation ''reviews'' ''reviews_event_id_fkey''), db)
      else if u \<notin> set (map p_id (profiles db))
      then (ReviewFailed (ForeignKeyViolation ''reviews'' ''reviews_user_id_fkey''), db)
      else (ReviewSubmitted, db\<lparr>reviews := reviews db @
        [\<lparr>rev_id = new_id, rev_event_id = event_id, rev_user_id = u, rev_rating = rating,
          rev_comment = trim comment, rev_created_at = now, rev_updated_at = now\<rparr>]\<rparr>))"
proof -
  have p: "reviewSchema_parse rating comment = Inr (rating, trim comment)"
    using assms by (simp add: reviewSchema_parse_Inr_iff)
  show ?thesis
    using assms(1,2) duplicate_message no_duplicate_in_review_messages
    by (simp add: handleSubmitReview_def p insert_review_def del: message.simps)
qed

section \<open>Reviews and the end of the event (C1)\<close>

text \<open>
  C1, as the code has it. A signed-in user's review is stored exactly when the rating
  and the trimmed comment pass \<^verbatim>\<open>reviewSchema\<close>, the new id is unused, the user has no
  review of that event yet, and the event and the user's profile exist; the stored row
  carries the trimmed comment. The event's \<^verbatim>\<open>end_time\<close> is no condition: neither
  \<^verbatim>\<open>handleSubmitReview\<close> nor the reviews table reads it. Only the page shows its review
  form exactly when a user is signed in, the event's \<^verbatim>\<open>end_time\<close> is before the clock at
  render time, and none of the loaded reviews is the user's; for an event loaded from
  the database that is: the user has no stored review of that event.
\<close>

theorem review_accepted_iff:
  "(fst (handleSubmitReview (Some u) event_id rating comment new_id now db) = ReviewSubmitted) =
     (1 \<le> rating \<and> rating \<le> 5 \<and> 10 \<le> length (trim comment) \<and> length (trim comment) \<le> 1000 \<and>
      new_id \<notin> set (map rev_id (reviews db)) \<and>
      (event_id, u) \<notin> set (map (\<lambda>r. (rev_event_id r, rev_user_id r)) (reviews db)) \<and>
      event_id \<in> set (map ev_id (events db)) \<and> u \<in> set (map p_id (profiles db))) \<and>
   (fst (handleSubmitReview (Some u) event_id rating comment new_id now db) = ReviewSubmitted \<longrightarrow>
      reviews (snd (handleSubmitReview (Some u) event_id rating comment new_id now db)) =
        reviews db @
        [\<lparr>rev_id = new_id, rev_event_id = event_id, rev_user_id = u, rev_rating = rating,
          rev_comment = trim comment, rev_created_at = now, rev_updated_at = now\<rparr>]) \<and>
   review_form_shown user render_time ed =
     (\<exists>v. user = Some v \<and> ev_end_time (ed_event ed) < render_time \<and>
          v \<notin> set (map vi_user_id (ed_reviews ed))) \<and>
   (select_event_single user shown_id db = Inr ed \<longrightarrow>
      ev_id (ed_event ed) = shown_id \<and> ed_event ed \<in> set (events db) \<and>
      review_form_shown user render_time ed =
        (\<exists>v. user = Some v \<and> ev_end_time (ed_event ed) < render_time \<and>
             (shown_id, v) \<notin> set (map (\<lambda>r. (rev_event_id r, rev_user_id r)) (reviews db))))"
proof -
  have form: "review_form_shown user render_time ed =
     (\<exists>v. user = Some v \<and> ev_end_time (ed_event ed) < render_time \<and>
          v \<notin> set (map vi_user_id (ed_reviews ed)))"
    by (cases user) (auto simp: review_form_shown_def hasEnded_def list_ex_iff)
  have loaded: "ev_id (ed_event ed) = shown_id \<and> ed_event ed \<in> set (events db) \<and>
      review_form_shown user render_time ed =
        (\<exists>v. user = Some v \<and> ev_end_time (ed_event ed) < render_time \<and>
             (shown_id, v) \<notin> set (map (\<lambda>r. (rev_event_id r, rev_user_id r)) (reviews db)))"
    if sel: "select_event_single user shown_id db = Inr ed"
  proof -
    from select_event_single_Inr[OF sel] obtain e where
      d: "ed = event_with_embeds user db e" and e: "ev_id e = shown_id" "e \<in> set (events db)"
      by blast
    have ids: "set (map vi_user_id (ed_reviews ed)) =
        {rev_user_id r | r. r \<in> set (reviews db) \<and> rev_event_id r = shown_id}"
      by (auto simp: d e event_with_embeds_def select_reviews_def)
    have "(v \<notin> set (map vi_user_id (ed_reviews ed))) =
        ((shown_id, v) \<notin> set (map (\<lambda>r. (rev_event_id r, rev_user_id r)) (reviews db)))" for v
      unfolding ids by auto
    with form e show ?thesis by (simp add: d event_with_embeds_def)
  qed
  have rest: "(fst (handleSubmitReview (Some u) event_id rating comment new_id now db) = ReviewSubmitted) =
     (1 \<le> rating \<and> rating \<le> 5 \<and> 10 \<le> length (trim comment) \<and> length (trim comment) \<le> 1000 \<and>
      new_id \<notin> set (map rev_id (reviews db)) \<and>
      (event_id, u) \<notin> set (map (\<lambda>r. (rev_event_id r, rev_user_id r)) (reviews db)) \<and>
      event_id \<in> set (map ev_id (events db)) \<and> u \<in> set (map p_id (profiles db))) \<and>
   (fst (handleSubmitReview (Some u) event_id rating comment new_id now db) = ReviewSubmitted \<longrightarrow>
      reviews (snd (handleSubmitReview (Some u) event_id rating comment new_id now db)) =
        reviews db @
        [\<lparr>rev_id = new_id, rev_event_id = event_id, rev_user_id = u, rev_rating = rating,
          rev_comment = trim comment, rev_created_at = now, rev_updated_at = now\<rparr>])"
  proof (cases "1 \<le> rating \<and> rating \<le> 5 \<and> 10 \<le> length (trim comment) \<and> length (trim comment) \<le> 1000")
    case True
    then show ?thesis by (auto simp: handleSubmitReview_valid)
  next
    case False
    from handleSubmitReview_invalid[OF False] obtain issue where
      "handleSubmitReview (Some u) event_id rating comment new_id now db = (ReviewInvalid issue, db)"
      by blast
    with False show ?thesis by auto
  qed
  from rest form loaded show ?thesis by blast
qed

text \<open>
  C1, witness: at time 400 the third account loads the public event (ended at 300),
  sees the review form, and its review is stored; the second account, loading the private
  event it has reviewed, would see no form.
\<close>

theorem review_accepted_iff_witness:
  "fst (handleSubmitReview (Some 3) 10 4 ''  Well organised, thanks  '' 31 400 demo_db) = ReviewSubmitted \<and>
   reviews (snd (handleSubmitReview (Some 3) 10 4 ''  Well organised, thanks  '' 31 400 demo_db)) =
     [demo_review,
      \<lparr>rev_id = 31, rev_event_id = 10, rev_user_id = 3, rev_rating = 4,
       rev_comment = ''Well organised, thanks'', rev_created_at = 400, rev_updated_at = 400\<rparr>] \<and>
   select_event_single (Some 3) 10 demo_db = Inr (event_with_embeds (Some 3) demo_db demo_public_event) \<and>
   review_form_shown (Some 3) 400 (event_with_embeds (Some 3) demo_db demo_public_event) \<and>
   \<not> review_form_shown (Some 3) 250 (event_with_embeds (Some 3) demo_db demo_public_event) \<and>
   \<not> review_form_shown (Some 2) 400 (event_with_embeds (Some 2) demo_db demo_private_event) \<and>
   ev_end_time (ed_event (event_with_embeds (Some 3) demo_db demo_public_event)) = 300"
proof -
  have t: "trim ''  Well organised, thanks  '' = ''Well organised, thanks''"
    by (simp add: trim_def is_space_def)
  have l: "select_event_single (Some 3) 10 demo_db =
      Inr (event_with_embeds (Some 3) demo_db demo_public_event)"
    by (simp add: select_event_single_def select_events_def event_visible_def demo_db_def
        demo_public_event_def demo_private_event_def)
  have e: "ev_end_time (ed_event (event_with_embeds (Some 3) demo_db demo_public_event)) = 300"
    by (simp add: event_with_embeds_def demo_public_event_def)
  have r: "set (map (\<lambda>r. (rev_event_id r, rev_user_id r)) (reviews demo_db)) = {(11, 2)}"
    by (simp add: demo_db_def demo_review_def)
  have own: "set (map vi_user_id (ed_reviews (event_with_embeds (Some 2) demo_db demo_private_event)))
      = {2}"
    by (simp add: event_with_embeds_def select_reviews_def demo_db_def demo_review_def
        demo_private_event_def)
  note late = review_accepted_iff[of 3 10 4 "''  Well organised, thanks  ''" 31 400 demo_db
      "Some 3" 400 "event_with_embeds (Some 3) demo_db demo_public_event" 10]
  note early = review_accepted_iff[of 3 10 4 "''  Well organised, thanks  ''" 31 400 demo_db
      "Some 3" 250 "event_with_embeds (Some 3) demo_db demo_public_event" 10]
  note own_seen = review_accepted_iff[of 3 10 4 "''  Well organised, thanks  ''" 31 400 demo_db
      "Some 2" 400 "event_with_embeds (Some 2) demo_db demo_private_event" 11]
  have ids: "31 \<notin> set (map rev_id (reviews demo_db))"
    "10 \<in> set (map ev_id (events demo_db))" "3 \<in> set (map p_id (profiles demo_db))"
    "reviews demo_db = [demo_review]"
    by (simp_all add: demo_db_def demo_review_def demo_profiles_def demo_public_event_def
        demo_private_event_def)
  from late l e r ids have a:
    "fst (handleSubmitReview (Some 3) 10 4 ''  Well organised, thanks  '' 31 400 demo_db) = ReviewSubmitted \<and>
     reviews (snd (handleSubmitReview (Some 3) 10 4 ''  Well organised, thanks  '' 31 400 demo_db)) =
       [demo_review,
        \<lparr>rev_id = 31, rev_event_id = 10, rev_user_id = 3, rev_rating = 4,
         rev_comment = ''Well organised, thanks'', rev_created_at = 400, rev_updated_at = 400\<rparr>] \<and>
     review_form_shown (Some 3) 400 (event_with_embeds (Some 3) demo_db demo_public_event)"
    by (auto simp: t)
  from early e have b:
    "\<not> review_form_shown (Some 3) 250 (event_with_embeds (Some 3) demo_db demo_public_event)"
    by simp
  from own_seen own have c:
    "\<not> review_form_shown (Some 2) 400 (event_with_embeds (Some 2) demo_db demo_private_event)"
    by simp
  from a b c l e show ?thesis by simp
qed

text \<open>
  C1 as stated fails: at time 50 the third account's review of the public event, which
  ends at 300, is accepted and stored; there is no rejection for an event that has not
  ended.
\<close>

theorem review_before_end_stored:
  "handleSubmitReview (Some 3) 10 5 ''What a great event'' 31 50 demo_db =
     (ReviewSubmitted, demo_db\<lparr>reviews := [demo_review,
        \<lparr>rev_id = 31, rev_event_id = 10, rev_user_id = 3, rev_rating = 5,
         rev_comment = ''What a great event'', rev_created_at = 50, rev_updated_at = 50\<rparr>]\<rparr>) \<and>
   filter (\<lambda>e. ev_id e = 10) (events demo_db) = [demo_public_event] \<and>
   ev_end_time demo_public_event = 300 \<and> (50::int) < 300"
  by (simp add: handleSubmitReview_def reviewSchema_parse_def string_trim_min_max_def Let_def
      trim_def is_space_def insert_review_def demo_db_def demo_review_def demo_profiles_def
      demo_public_event_def demo_private_event_def)

section \<open>One review per user and event (C7)\<close>

text \<open>
  C7, as the code has it. In every reachable state no two reviews share their
  \<^verbatim>\<open>(event_id, user_id)\<close>. When the pair already has a review, an insert for it stores
  nothing, a submission by that user leaves the database as it was, and a submission
  whose rating and comment pass \<^verbatim>\<open>reviewSchema\<close> is answered with
  \<^verbatim>\<open>"You've already reviewed this event"\<close>.
\<close>

theorem review_unique:
  "(reachable db \<longrightarrow> distinct (map (\<lambda>r. (rev_event_id r, rev_user_id r)) (reviews db))) \<and>
   ((event_id, u) \<in> set (map (\<lambda>r. (rev_event_id r, rev_user_id r)) (reviews db)) \<longrightarrow>
      (\<exists>err. insert_review uid new_id now event_id u rating comment db = Inl err) \<and>
      snd (handleSubmitReview (Some u) event_id rating comment new_id now db) = db \<and>
      (1 \<le> rating \<and> rating \<le> 5 \<and> 10 \<le> length (trim comment) \<and> length (trim comment) \<le> 1000 \<longrightarrow>
         handleSubmitReview (Some u) event_id rating comment new_id now db = (AlreadyReviewed, db)))"
proof (intro conjI impI)
  assume "reachable db"
  then show "distinct (map (\<lambda>r. (rev_event_id r, rev_user_id r)) (reviews db))"
    using reachable_invariants by blast
next
  assume "(event_id, u) \<in> set (map (\<lambda>r. (rev_event_id r, rev_user_id r)) (reviews db))"
  then show "\<exists>err. insert_review uid new_id now event_id u rating comment db = Inl err"
    by (simp add: insert_review_def)
next
  assume "(event_id, u) \<in> set (map (\<lambda>r. (rev_event_id r, rev_user_id r)) (reviews db))"
    and "1 \<le> rating \<and> rating \<le> 5 \<and> 10 \<le> length (trim comment) \<and> length (trim comment) \<le> 1000"
  then show "handleSubmitReview (Some u) event_id rating comment new_id now db = (AlreadyReviewed, db)"
    by (simp add: handleSubmitReview_valid)
next
  assume pair: "(event_id, u) \<in> set (map (\<lambda>r. (rev_event_id r, rev_user_id r)) (reviews db))"
  show "snd (handleSubmitReview (Some u) event_id rating comment new_id now db) = db"
  proof (cases "1 \<le> rating \<and> rating \<le> 5 \<and> 10 \<le> length (trim comment) \<and> length (trim comment) \<le> 1000")
    case True
    with pair show ?thesis by (simp add: handleSubmitReview_valid)
  next
    case False
    from handleSubmitReview_invalid[OF False, of u event_id new_id now db] show ?thesis
      by auto
  qed
qed

text \<open>
  C7, witness: the second account has reviewed the private event; its second, valid
  review fails on the unique constraint and is answered with the duplicate message.
\<close>

theorem review_unique_witness:
  "reachable demo_db \<and>
   distinct (map (\<lambda>r. (rev_event_id r, rev_user_id r)) (reviews demo_db)) \<and>
   (11, 2) \<in> set (map (\<lambda>r. (rev_event_id r, rev_user_id r)) (reviews demo_db)) \<and>
   insert_review (Some 2) 31 400 11 2 5 ''Even better the second time'' demo_db
     = Inl (UniqueViolation ''reviews_event_id_user_id_key'') \<and>
   handleSubmitReview (Some 2) 11 5 ''Even better the second time'' 31 400 demo_db
     = (AlreadyReviewed, demo_db)"
proof -
  have pair: "(11, 2) \<in> set (map (\<lambda>r. (rev_event_id r, rev_user_id r)) (reviews demo_db))"
    by (simp add: demo_db_def demo_review_def)
  have t: "trim ''Even better the second time'' = ''Even better the second time''"
    by (simp add: trim_def is_space_def)
  have i: "insert_review (Some 2) 31 400 11 2 5 ''Even better the second time'' demo_db
     = Inl (UniqueViolation ''reviews_event_id_user_id_key'')"
    by (simp add: insert_review_def demo_db_def demo_review_def)
  note inst = review_unique[of demo_db 11 2 "Some 2" 31 400 5 "''Even better the second time''"]
  from inst reachable_demo_db pair i show ?thesis
    by (simp add: t)
qed

text \<open>
  C7 as stated fails: the second account's second review of the same event with the
  comment \<^verbatim>\<open>"Nice"\<close> is answered with the comment's validation message, not with the
  duplicate message; the schema is checked before the insert.
\<close>

theorem short_comment_precedes_duplicate:
  "(11, 2) \<in> set (map (\<lambda>r. (rev_event_id r, rev_user_id r)) (reviews demo_db)) \<and>
   handleSubmitReview (Some 2) 11 5 ''Nice'' 31 400 demo_db
     = (ReviewInvalid (too_small ''comment'' (Some ''Review must be at least 10 characters'')), demo_db) \<and>
   fst (handleSubmitReview (Some 2) 11 5 ''Nice'' 31 400 demo_db) \<noteq> AlreadyReviewed"
  by (simp add: handleSubmitReview_def reviewSchema_parse_def string_trim_min_max_def Let_def
      trim_def is_space_def demo_db_def demo_review_def)

section \<open>Validation of a review (C10)\<close>

text \<open>
  C10. A signed-in user's review submission ends in a validation message, with nothing
  stored, exactly when the trimmed comment is not 10 to 1000 characters long or the
  rating is not between 1 and 5. What the schema passes on is the rating and the trimmed
  comment, and that is the comment stored. A comment of fewer than 10 characters after
  trimming, empty or not, gets \<^verbatim>\<open>"Review must be at least 10 characters"\<close>.
\<close>

theorem review_validation:
  "((\<exists>issue. handleSubmitReview (Some u) event_id rating comment new_id now db
        = (ReviewInvalid issue, db)) =
    (\<not> (10 \<le> length (trim comment) \<and> length (trim comment) \<le> 1000 \<and> 1 \<le> rating \<and> rating \<le> 5))) \<and>
   (reviewSchema_parse rating comment = Inr (r, c) \<longrightarrow> r = rating \<and> c = trim comment) \<and>
   (fst (handleSubmitReview (Some u) event_id rating comment new_id now db) = ReviewSubmitted \<longrightarrow>
      rev_comment (last (reviews (snd (handleSubmitReview (Some u) event_id rating comment new_id now db))))
        = trim comment) \<and>
   (1 \<le> rating \<and> rating \<le> 5 \<and> length (trim comment) < 10 \<longrightarrow>
      handleSubmitReview (Some u) event_id rating comment new_id now db
        = (ReviewInvalid (too_small ''comment'' (Some ''Review must be at least 10 characters'')), db))"
proof (intro conjI impI)
  show "(\<exists>issue. handleSubmitReview (Some u) event_id rating comment new_id now db
        = (ReviewInvalid issue, db)) =
    (\<not> (10 \<le> length (trim comment) \<and> length (trim comment) \<le> 1000 \<and> 1 \<le> rating \<and> rating \<le> 5))"
  proof (cases "1 \<le> rating \<and> rating \<le> 5 \<and> 10 \<le> length (trim comment) \<and> length (trim comment) \<le> 1000")
    case True
    then show ?thesis by (auto simp: handleSubmitReview_valid)
  next
    case False
    with handleSubmitReview_invalid[OF False, of u event_id new_id now db] show ?thesis by blast
  qed
next
  assume "reviewSchema_parse rating comment = Inr (r, c)"
  then show "r = rating" "c = trim comment" by (simp_all add: reviewSchema_parse_Inr_iff)
next
  assume a: "fst (handleSubmitReview (Some u) event_id rating comment new_id now db) = ReviewSubmitted"
  show "rev_comment (last (reviews (snd (handleSubmitReview (Some u) event_id rating comment new_id now db))))
        = trim comment"
  proof (cases "1 \<le> rating \<and> rating \<le> 5 \<and> 10 \<le> length (trim comment) \<and> length (trim comment) \<le> 1000")
    case True
    with a show ?thesis by (auto simp: handleSubmitReview_valid split: if_splits)
  next
    case False
    from handleSubmitReview_invalid[OF False, of u event_id new_id now db] a show ?thesis by auto
  qed
next
  assume "1 \<le> rating \<and> rating \<le> 5 \<and> length (trim comment) < 10"
  then show "handleSubmitReview (Some u) event_id rating comment new_id now db
        = (ReviewInvalid (too_small ''comment'' (Some ''Review must be at least 10 characters'')), db)"
    by (simp add: handleSubmitReview_def reviewSchema_parse_def string_trim_min_max_def Let_def)
qed

text \<open>
  C10, witness: \<^verbatim>\<open>"  Good fun "\<close> trims to 8 characters and is refused;
  \<^verbatim>\<open>"  Well organised, thanks  "\<close> is stored trimmed.
\<close>

theorem review_validation_witness:
  "handleSubmitReview (Some 3) 10 5 ''  Good fun '' 31 400 demo_db
     = (ReviewInvalid (too_small ''comment'' (Some ''Review must be at least 10 characters'')), demo_db) \<and>
   trim ''  Good fun '' = ''Good fun'' \<and>
   reviewSchema_parse 4 ''  Well organised, thanks  '' = Inr (4, ''Well organised, thanks'') \<and>
   fst (handleSubmitReview (Some 3) 10 4 ''  Well organised, thanks  '' 31 400 demo_db) = ReviewSubmitted \<and>
   rev_comment (last (reviews (snd
     (handleSubmitReview (Some 3) 10 4 ''  Well organised, thanks  '' 31 400 demo_db))))
     = ''Well organised, thanks''"
proof -
  have t1: "trim ''  Good fun '' = ''Good fun''" by (simp add: trim_def is_space_def)
  have t2: "trim ''  Well organised, thanks  '' = ''Well organised, thanks''"
    by (simp add: trim_def is_space_def)
  have p: "reviewSchema_parse 4 ''  Well organised, thanks  '' = Inr (4, ''Well organised, thanks'')"
    by (simp add: reviewSchema_parse_Inr_iff t2)
  have ok: "fst (handleSubmitReview (Some 3) 10 4 ''  Well organised, thanks  '' 31 400 demo_db)
      = ReviewSubmitted"
    by (simp add: handleSubmitReview_def p insert_review_def demo_db_def demo_review_def
        demo_profiles_def demo_public_event_def demo_private_event_def)
  note bad = review_validation[of 3 10 5 "''  Good fun ''" 31 400 demo_db]
  note good = review_validation[of 3 10 4 "''  Well organised, thanks  ''" 31 400 demo_db
      4 "''Well organised, thanks''"]
  from bad good p ok show ?thesis by (simp add: t1 t2)
qed

section \<open>Facts about the listing and the lookup\<close>

lemma private_event_not_selected:
  assumes "reachable db" "e \<in> set (events db)" "ev_is_public e = False"
    "uid \<noteq> Some (ev_organizer_id e)"
  shows "filter (\<lambda>x. ev_id x = ev_id e) (select_events uid db) = []"
proof -
  have "distinct (map ev_id (events db))" using reachable_invariants[OF assms(1)] by blast
  then have inj: "inj_on ev_id (set (events db))" by (simp add: distinct_map)
  have "x = e" if "x \<in> set (events db)" "ev_id x = ev_id e" for x
    using inj that assms(2) by (auto dest: inj_onD)
  moreover have "\<not> event_visible uid e" using assms(3,4) by (auto simp: event_visible_def)
  ultimately show ?thesis by (auto simp: select_events_def filter_empty_conv)
qed

lemma missing_event_not_selected:
  assumes "event_id \<notin> set (map ev_id (events db))"
  shows "filter (\<lambda>x. ev_id x = event_id) (select_events uid db) = []"
  using assms by (auto simp: select_events_def filter_empty_conv)

lemma fetchEvents_events:
  "map le_event (fetchEvents uid now db) =
     sort_key ev_start_time (filter (\<lambda>e. ev_is_public e \<and> now \<le> ev_start_time e) (events db))"
proof -
  have "filter (\<lambda>e. ev_is_public e = True \<and> ev_start_time e \<ge> now) (select_events uid db) =
        filter (\<lambda>e. ev_is_public e \<and> now \<le> ev_start_time e) (events db)"
    by (auto simp: select_events_def event_visible_def intro: filter_cong)
  then show ?thesis by (simp add: fetchEvents_def comp_def)
qed

lemma demo_listing:
  "fetchEvents (Some 3) 100 demo_db =
     [\<lparr>le_event = demo_public_event, le_organizer = Some ''Ann'', le_rsvps = []\<rparr>]"
  by (simp add: fetchEvents_def select_events_def event_visible_def embed_organizer_def
      select_profiles_def select_rsvps_def demo_db_def demo_profiles_def demo_public_event_def
      demo_private_event_def demo_rsvp_def)

lemma demo_matches:
  "filteredEvents ''MUSIC''
     [\<lparr>le_event = demo_public_event, le_organizer = Some ''Ann'', le_rsvps = []\<rparr>] =
     [\<lparr>le_event = demo_public_event, le_organizer = Some ''Ann'', le_rsvps = []\<rparr>]"
  "filteredEvents ''opera''
     [\<lparr>le_event = demo_public_event, le_organizer = Some ''Ann'', le_rsvps = []\<rparr>] = []"
  by code_simp+

section \<open>Private events (C5)\<close>

text \<open>
  C5, as the code has it. A private event is in nobody's listing. Looked up by its id by
  anyone but its organizer, it is filtered out by the events policy: the query returns no
  row, \<^verbatim>\<open>.single()\<close> fails, and the page answers \<^verbatim>\<open>"Failed to load event"\<close> and keeps its
  state; the lookup of an id that no event has gives the very same result.
\<close>

theorem private_event_hidden:
  "reachable db \<and> e \<in> set (events db) \<and> ev_is_public e = False \<and>
   uid \<noteq> Some (ev_organizer_id e) \<longrightarrow>
     e \<notin> set (map le_event (fetchEvents anyone now db)) \<and>
     select_event_single uid (ev_id e) db = Inl NotSingleRow \<and>
     fetchEvent uid (ev_id e) db pg = (LoadFailed, pg) \<and>
     (missing \<notin> set (map ev_id (events db)) \<longrightarrow>
        select_event_single uid missing db = Inl NotSingleRow \<and>
        fetchEvent uid missing db pg = fetchEvent uid (ev_id e) db pg)"
proof (intro impI)
  assume a: "reachable db \<and> e \<in> set (events db) \<and> ev_is_public e = False \<and>
   uid \<noteq> Some (ev_organizer_id e)"
  then have sel: "select_event_single uid (ev_id e) db = Inl NotSingleRow"
    using private_event_not_selected[of db e uid] by (simp add: select_event_single_def)
  have lst: "e \<notin> set (map le_event (fetchEvents anyone now db))"
    using a by (simp add: fetchEvents_events)
  have mis: "select_event_single uid missing db = Inl NotSingleRow"
    if "missing \<notin> set (map ev_id (events db))"
    using missing_event_not_selected[OF that, of uid] by (simp add: select_event_single_def)
  show "e \<notin> set (map le_event (fetchEvents anyone now db)) \<and>
     select_event_single uid (ev_id e) db = Inl NotSingleRow \<and>
     fetchEvent uid (ev_id e) db pg = (LoadFailed, pg) \<and>
     (missing \<notin> set (map ev_id (events db)) \<longrightarrow>
        select_event_single uid missing db = Inl NotSingleRow \<and>
        fetchEvent uid missing db pg = fetchEvent uid (ev_id e) db pg)"
    using sel lst mis by (simp add: fetchEvent_def)
qed

text \<open>
  C5, witness: the private event of the first account is not in the listing, even its
  organizer's; the second account's lookup of it fails as the lookup of the unused id 99
  does.
\<close>

theorem private_event_hidden_witness:
  "reachable demo_db \<and> demo_private_event \<in> set (events demo_db) \<and>
   ev_is_public demo_private_event = False \<and> ev_organizer_id demo_private_event = 1 \<and>
   demo_private_event \<notin> set (map le_event (fetchEvents (Some 1) 100 demo_db)) \<and>
   select_event_single (Some 2) 11 demo_db = Inl NotSingleRow \<and>
   fetchEvent (Some 2) 11 demo_db initial_page = (LoadFailed, initial_page) \<and>
   fetchEvent (Some 2) 99 demo_db initial_page = (LoadFailed, initial_page)"
proof -
  have m: "99 \<notin> set (map ev_id (events demo_db))"
    by (simp add: demo_db_def demo_public_event_def demo_private_event_def)
  have e: "demo_private_event \<in> set (events demo_db)" by (simp add: demo_db_def)
  have p: "ev_is_public demo_private_event = False" "ev_organizer_id demo_private_event = 1"
    "ev_id demo_private_event = 11"
    by (simp_all add: demo_private_event_def)
  note inst = private_event_hidden[of demo_db demo_private_event "Some 2" "Some 1" 100
      initial_page 99]
  from inst reachable_demo_db m e p show ?thesis by simp
qed

text \<open>
  C5 as stated fails: for the second account the lookup of the private event 11 and the
  lookup of the unused id 99 give the same result, so a denial is not distinguishable
  from an event that is not there.
\<close>

theorem private_lookup_like_missing:
  "fetchEvent (Some 2) 11 demo_db initial_page = fetchEvent (Some 2) 99 demo_db initial_page \<and>
   select_event_single (Some 2) 11 demo_db = select_event_single (Some 2) 99 demo_db \<and>
   filter (\<lambda>e. ev_id e = 11) (events demo_db) = [demo_private_event] \<and>
   filter (\<lambda>e. ev_id e = 99) (events demo_db) = [] \<and>
   ev_is_public demo_private_event = False \<and> ev_organizer_id demo_private_event = 1"
  by (simp add: fetchEvent_def select_event_single_def select_events_def event_visible_def
      demo_db_def demo_public_event_def demo_private_event_def)

section \<open>RSVPs and reviews of private events (C2)\<close>

text \<open>
  C2, as the code has it. The policies of the rsvps and reviews tables show every row to
  every caller, whatever event the row belongs to. A private event itself is hidden from
  everyone but its organizer, so the two pages deliver nothing of it: the listing has no
  row of it, and the event page's query gives no data and leaves the page's event as it
  was.
\<close>

theorem rsvps_reviews_readable_by_all:
  "select_rsvps uid db = rsvps db \<and> select_reviews uid db = reviews db \<and>
   (reachable db \<and> e \<in> set (events db) \<and> ev_is_public e = False \<and>
    uid \<noteq> Some (ev_organizer_id e) \<longrightarrow>
      (\<forall>row \<in> set (fetchEvents uid now db). le_event row \<noteq> e) \<and>
      (\<forall>data. select_event_single uid (ev_id e) db \<noteq> Inr data) \<and>
      pg_event (snd (fetchEvent uid (ev_id e) db pg)) = pg_event pg)"
proof (intro conjI impI)
  show "select_rsvps uid db = rsvps db" by (simp add: select_rsvps_def)
  show "select_reviews uid db = reviews db" by (simp add: select_reviews_def)
next
  assume a: "reachable db \<and> e \<in> set (events db) \<and> ev_is_public e = False \<and>
    uid \<noteq> Some (ev_organizer_id e)"
  then have sel: "select_event_single uid (ev_id e) db = Inl NotSingleRow"
    using private_event_not_selected[of db e uid] by (simp add: select_event_single_def)
  have "e \<notin> set (map le_event (fetchEvents uid now db))"
    using a by (simp add: fetchEvents_events)
  then show "\<forall>row \<in> set (fetchEvents uid now db). le_event row \<noteq> e" by auto
  show "\<forall>data. select_event_single uid (ev_id e) db \<noteq> Inr data" using sel by simp
  show "pg_event (snd (fetchEvent uid (ev_id e) db pg)) = pg_event pg"
    using sel by (simp add: fetchEvent_def)
qed

text \<open>
  C2, witness: the third account, and an anonymous caller, read all RSVPs and reviews;
  the third account's listing and lookup show nothing of the private event.
\<close>

theorem rsvps_reviews_readable_by_all_witness:
  "select_rsvps (Some 3) demo_db = [demo_rsvp] \<and> select_reviews None demo_db = [demo_review] \<and>
   reachable demo_db \<and> demo_private_event \<in> set (events demo_db) \<and>
   list_all (\<lambda>row. le_event row \<noteq> demo_private_event) (fetchEvents (Some 3) 100 demo_db) \<and>
   select_event_single (Some 3) 11 demo_db = Inl NotSingleRow \<and>
   pg_event (snd (fetchEvent (Some 3) 11 demo_db initial_page)) = None"
proof -
  have e: "demo_private_event \<in> set (events demo_db)" by (simp add: demo_db_def)
  have p: "ev_is_public demo_private_event = False" "ev_organizer_id demo_private_event = 1"
    "ev_id demo_private_event = 11"
    by (simp_all add: demo_private_event_def)
  have s: "select_event_single (Some 3) 11 demo_db = Inl NotSingleRow"
    by (simp add: select_event_single_def select_events_def event_visible_def
      demo_db_def demo_public_event_def demo_private_event_def)
  note r = rsvps_reviews_readable_by_all[of "Some 3" demo_db demo_private_event 100 initial_page]
  note n = rsvps_reviews_readable_by_all[of None demo_db]
  from r n reachable_demo_db e p s show ?thesis
    by (simp add: list_all_iff initial_page_def demo_db_def)
qed

text \<open>
  C2 as stated fails: the third account, which does not organize the private event, reads
  the RSVP and the review that belong to it.
\<close>

theorem private_event_rows_selectable:
  "demo_rsvp \<in> set (select_rsvps (Some 3) demo_db) \<and>
   demo_review \<in> set (select_reviews (Some 3) demo_db) \<and>
   rsvp_event_id demo_rsvp = ev_id demo_private_event \<and>
   rev_event_id demo_review = ev_id demo_private_event \<and>
   demo_private_event \<in> set (events demo_db) \<and>
   ev_is_public demo_private_event = False \<and> ev_organizer_id demo_private_event = 1"
  by (simp add: select_rsvps_def select_reviews_def demo_db_def demo_rsvp_def demo_review_def
      demo_private_event_def)

section \<open>The listing of public upcoming events (C8)\<close>

text \<open>
  C8. The listing holds exactly the public events that start at or after the time of
  the request, each once, in ascending order of \<^verbatim>\<open>start_time\<close>. The search keeps exactly
  the rows whose title, description or location includes the query, letter case apart, in
  the order of the listing; the empty query keeps every row.
\<close>

theorem fetchEvents_public_upcoming_sorted:
  "set (map le_event (fetchEvents uid now db)) =
     {e \<in> set (events db). ev_is_public e = True \<and> now \<le> ev_start_time e} \<and>
   mset (map le_event (fetchEvents uid now db)) =
     mset (filter (\<lambda>e. ev_is_public e = True \<and> now \<le> ev_start_time e) (events db)) \<and>
   sorted (map (\<lambda>row. ev_start_time (le_event row)) (fetchEvents uid now db)) \<and>
   set (filteredEvents searchQuery (fetchEvents uid now db)) =
     {row \<in> set (fetchEvents uid now db).
        str_includes (toLowerCase (ev_title (le_event row))) (toLowerCase searchQuery) \<or>
        str_includes (toLowerCase (ev_description (le_event row))) (toLowerCase searchQuery) \<or>
        str_includes (toLowerCase (ev_location (le_event row))) (toLowerCase searchQuery)} \<and>
   subseq (filteredEvents searchQuery (fetchEvents uid now db)) (fetchEvents uid now db) \<and>
   sorted (map (\<lambda>row. ev_start_time (le_event row))
     (filteredEvents searchQuery (fetchEvents uid now db))) \<and>
   filteredEvents [] (fetchEvents uid now db) = fetchEvents uid now db"
proof -
  have s: "sorted (map (\<lambda>row. ev_start_time (le_event row)) (fetchEvents uid now db))"
  proof -
    have "map (\<lambda>row. ev_start_time (le_event row)) (fetchEvents uid now db) =
          map ev_start_time (map le_event (fetchEvents uid now db))"
      by (simp add: comp_def)
    then show ?thesis by (simp only: fetchEvents_events sorted_sort_key)
  qed
  have f: "sorted (map (\<lambda>row. ev_start_time (le_event row))
     (filteredEvents searchQuery (fetchEvents uid now db)))"
    unfolding filteredEvents_def using s by (rule sorted_filter)
  have e: "filteredEvents [] (fetchEvents uid now db) = fetchEvents uid now db"
    by (simp add: filteredEvents_def matches_query_def str_includes_def toLowerCase_def)
  have m: "mset (map le_event (fetchEvents uid now db)) =
     mset (filter (\<lambda>e. ev_is_public e = True \<and> now \<le> ev_start_time e) (events db))"
    by (simp add: fetchEvents_events)
  have st: "set (map le_event (fetchEvents uid now db)) =
     {e \<in> set (events db). ev_is_public e = True \<and> now \<le> ev_start_time e}"
    by (simp add: fetchEvents_events)
  show ?thesis
    using s f e m st by (auto simp: filteredEvents_def matches_query_def)
qed

text \<open>
  C8, witness: at time 100 the listing of the small database is its public event; the
  query \<^verbatim>\<open>"MUSIC"\<close> keeps it, \<^verbatim>\<open>"opera"\<close> drops it; at time 250 the event has started
  and the listing is empty.
\<close>

theorem fetchEvents_public_upcoming_sorted_witness:
  "fetchEvents (Some 3) 100 demo_db =
     [\<lparr>le_event = demo_public_event, le_organizer = Some ''Ann'', le_rsvps = []\<rparr>] \<and>
   set (map le_event (fetchEvents (Some 3) 100 demo_db)) = {demo_public_event} \<and>
   filteredEvents ''MUSIC'' (fetchEvents (Some 3) 100 demo_db) = fetchEvents (Some 3) 100 demo_db \<and>
   filteredEvents ''opera'' (fetchEvents (Some 3) 100 demo_db) = [] \<and>
   fetchEvents (Some 3) 250 demo_db = []"
proof -
  note inst = fetchEvents_public_upcoming_sorted[of "Some 3" 100 demo_db "''MUSIC''"]
  have l: "fetchEvents (Some 3) 250 demo_db = []"
    by (simp add: fetchEvents_def select_events_def event_visible_def demo_db_def
      demo_public_event_def demo_private_event_def)
  from inst l show ?thesis
    by (simp add: demo_listing demo_matches)
qed

section \<open>Facts about the average\<close>

lemma foldl_rating_sum:
  "foldl (\<lambda>sum r. sum + vi_rating r) a rs = a + sum_list (map vi_rating rs)"
  by (induction rs arbitrary: a) simp_all

lemma fl64_pos:
  assumes "0 < q"
  shows "0 < fl64 q"
proof -
  have "\<bar>fl64 q - q\<bar> \<le> q / 2 ^ 53" by (rule fl64_err[OF assms])
  moreover have "q / 2 ^ 53 < q" using assms by simp
  ultimately show ?thesis by linarith
qed

lemma tenths_nonneg: "0 \<le> tenths x"
  by (simp add: tenths_def)

lemma rating_sum_bounds:
  assumes "\<forall>k \<in> set ratings. 1 \<le> k \<and> k \<le> (5::int)"
  shows "int (length ratings) \<le> sum_list ratings \<and> sum_list ratings \<le> 5 * int (length ratings)"
  using assms by (induction ratings) auto

lemma twelve_by_three: "toFixed1 (js_divide 12 3) = ''4.0''"
  by code_simp

lemma digit_value_digit_char: "d < 10 \<Longrightarrow> digit_value (digit_char d) = Some d"
proof -
  assume "d < 10"
  then have "d \<in> {0, 1, 2, 3, 4, 5, 6, 7, 8, 9}" by auto
  then show ?thesis by (auto simp: digit_value_def digit_char_def)
qed

lemma read_digits_snoc:
  "read_digits acc (cs @ [c]) =
     (case read_digits acc cs of None \<Rightarrow> None
      | Some a \<Rightarrow> map_option (\<lambda>d. 10 * a + d) (digit_value c))"
  by (induction cs arbitrary: acc) (auto split: option.splits)

lemma read_digits_show_nat: "read_digits 0 (show_nat n) = Some n"
proof (induction n rule: show_nat.induct)
  case (1 n)
  show ?case
  proof (cases "n < 10")
    case True
    then have "show_nat n = [digit_char n]" by (subst show_nat.simps) simp
    with True show ?thesis by (simp add: digit_value_digit_char)
  next
    case False
    with 1 have "read_digits 0 (show_nat (n div 10)) = Some (n div 10)" by simp
    moreover have "show_nat n = show_nat (n div 10) @ [digit_char (n mod 10)]"
      using False by (subst show_nat.simps) simp
    ultimately show ?thesis
      by (simp only: read_digits_snoc) (simp add: digit_value_digit_char)
  qed
qed

lemma show_nat_nonempty: "show_nat n \<noteq> []"
  by (subst show_nat.simps) simp

lemma one_decimal_value_fixed1: "one_decimal_value (fixed1 n) = Some (of_nat n / 10)"
proof -
  define ip where "ip = show_nat (n div 10)"
  have "show_nat (n mod 10) = [digit_char (n mod 10)]" by (subst show_nat.simps) simp
  then have f: "fixed1 n = ip @ [CHR ''.'', digit_char (n mod 10)]"
    by (simp add: fixed1_def ip_def)
  have l: "length (fixed1 n) = length ip + 2" by (simp add: f)
  have "one_decimal_value (fixed1 n) = Some (of_nat (n div 10) + of_nat (n mod 10) / 10)"
    unfolding one_decimal_value_def l
    using show_nat_nonempty[of "n div 10", folded ip_def]
    by (simp add: f nth_append read_digits_show_nat[of "n div 10", folded ip_def]
        digit_value_digit_char)
  also have "(of_nat (n div 10) + of_nat (n mod 10) / 10 :: rat) = of_nat n / 10"
  proof -
    define a b where "a = n div 10" and "b = n mod 10"
    have "n = 10 * a + b" by (simp add: a_def b_def)
    then have "(of_nat n :: rat) = 10 * of_nat a + of_nat b" by simp
    then have "(of_nat a + of_nat b / 10 :: rat) = of_nat n / 10" by simp
    then show ?thesis by (simp only: a_def b_def)
  qed
  finally show ?thesis .
qed

text \<open>What the reader accepts: a numeral with a whole part and exactly one decimal place.\<close>

lemma one_decimal_value_examples:
  "one_decimal_value ''4.0'' = Some 4" "one_decimal_value ''12.5'' = Some (25 / 2)"
  "one_decimal_value ''N/A'' = None" "one_decimal_value ''4.05'' = None"
  "one_decimal_value ''.5'' = None" "one_decimal_value ''4'' = None"
  by (simp_all add: one_decimal_value_def digit_value_def)

text \<open>
  The page's average for any loaded reviews rated 1 to 5: a numeral with one decimal
  place, within \<open>1/20\<close> of the mean of the ratings.
\<close>

lemma avgRating_nearest_tenth:
  assumes ne: "ed_reviews ed \<noteq> []"
    and rg: "\<forall>r \<in> set (ed_reviews ed). 1 \<le> vi_rating r \<and> vi_rating r \<le> 5"
    and ln: "length (ed_reviews ed) < 2 ^ 46"
  shows "\<exists>v. one_decimal_value (avgRating ed) = Some v \<and>
             \<bar>v - arithmetic_mean (map vi_rating (ed_reviews ed))\<bar> \<le> 1 / 20"
proof -
  define S where "S = sum_list (map vi_rating (ed_reviews ed))"
  define L where "L = int (length (ed_reviews ed))"
  define n where "n = nat (tenths (js_divide S L))"
  have L: "0 < L" using ne by (simp add: L_def)
  have b: "L \<le> S \<and> S \<le> 5 * L"
    using rating_sum_bounds[of "map vi_rating (ed_reviews ed)"] rg by (simp add: S_def L_def)
  then have S: "0 < S" using L by linarith
  have "L < 2 ^ 46" using ln by (simp add: L_def)
  then have small: "20 * S < 2 ^ 53" using b by simp
  have "0 < js_divide S L"
    unfolding js_divide_def using L S by (intro fl64_pos) simp
  then have "avgRating ed = fixed1 n"
    using ne by (simp add: avgRating_def toFixed1_def foldl_rating_sum S_def L_def n_def)
  then have v: "one_decimal_value (avgRating ed) = Some (of_nat n / 10)"
    by (simp only: one_decimal_value_fixed1)
  have "(of_nat n :: rat) = of_int (tenths (js_divide S L))"
    using tenths_nonneg[of "js_divide S L"] by (simp add: n_def)
  moreover have "arithmetic_mean (map vi_rating (ed_reviews ed)) = of_int S / of_int L"
    by (simp add: arithmetic_mean_def S_def L_def)
  ultimately have "\<bar>of_nat n / 10 - arithmetic_mean (map vi_rating (ed_reviews ed))\<bar> \<le> 1 / 20"
    using tenths_js_divide_nearest[OF L S small] by simp
  with v show ?thesis by blast
qed

lemma reachable_demo_reviewed_db: "reachable demo_reviewed_db"
proof -
  define d1 where "d1 = demo_events_db\<lparr>reviews := [hd (reviews demo_reviewed_db)]\<rparr>"
  define d2 where "d2 = demo_events_db\<lparr>reviews := take 2 (reviews demo_reviewed_db)\<rparr>"
  have "reachable d1"
    by (rule reachable.review_inserted[OF reachable_demo_events_db,
          of "Some 1" 31 400 10 1 5 "''What a great event''"])
       (simp add: insert_review_def d1_def demo_events_db_def demo_reviewed_db_def
          demo_profiles_def demo_public_event_def demo_private_event_def)
  then have "reachable d2"
    by (rule reachable.review_inserted[of _ "Some 2" 32 401 10 2 3 "''It was all right''"])
       (simp add: insert_review_def d1_def d2_def demo_events_db_def demo_reviewed_db_def
          demo_profiles_def demo_public_event_def demo_private_event_def)
  then show ?thesis
    by (rule reachable.review_inserted[of _ "Some 3" 33 402 10 3 4 "''Well organised, thanks''"])
       (simp add: insert_review_def d2_def demo_events_db_def demo_reviewed_db_def
          demo_profiles_def demo_public_event_def demo_private_event_def)
qed

section \<open>The average rating (C6)\<close>

text \<open>
  C6. For an event loaded from a reachable database, the page's reviews carry the
  ratings of exactly that event's reviews. Without reviews the page shows \<^verbatim>\<open>"N/A"\<close> and
  divides nothing. With reviews, fewer than \<open>2^46\<close>, it shows a numeral with one decimal
  place whose value is within \<open>1/20\<close> of the arithmetic mean of that event's ratings, that
  is, the mean rounded to one decimal place. For the ratings 5, 3, 4 it shows \<^verbatim>\<open>"4.0"\<close>.
\<close>

theorem avgRating_mean_one_decimal:
  "reachable db \<and> select_event_single uid event_id db = Inr ed \<and>
   length (event_ratings event_id db) < 2 ^ 46 \<longrightarrow>
     map vi_rating (ed_reviews ed) = event_ratings event_id db \<and>
     (event_ratings event_id db = [] \<longrightarrow> avgRating ed = ''N/A'') \<and>
     (event_ratings event_id db \<noteq> [] \<longrightarrow>
        (\<exists>v. one_decimal_value (avgRating ed) = Some v \<and>
             \<bar>v - arithmetic_mean (event_ratings event_id db)\<bar> \<le> 1 / 20)) \<and>
     (event_ratings event_id db = [5, 3, 4] \<longrightarrow> avgRating ed = ''4.0'')"
proof (intro impI)
  assume a: "reachable db \<and> select_event_single uid event_id db = Inr ed \<and>
   length (event_ratings event_id db) < 2 ^ 46"
  from a select_event_single_Inr[of uid event_id db ed] obtain e where
    d: "ed = event_with_embeds uid db e" and e: "ev_id e = event_id" by blast
  have m: "map vi_rating (ed_reviews ed) = event_ratings event_id db"
    by (simp add: d e event_with_embeds_def select_reviews_def event_ratings_def comp_def)
  have inv: "\<forall>r \<in> set (reviews db). 1 \<le> rev_rating r \<and> rev_rating r \<le> 5"
    using a reachable_invariants[of db] by blast
  have rg: "\<forall>r \<in> set (ed_reviews ed). 1 \<le> vi_rating r \<and> vi_rating r \<le> 5"
  proof -
    have "\<forall>k \<in> set (event_ratings event_id db). 1 \<le> k \<and> k \<le> 5"
      using inv by (auto simp: event_ratings_def)
    then have "\<forall>k \<in> set (map vi_rating (ed_reviews ed)). 1 \<le> k \<and> k \<le> 5" by (simp only: m)
    then show ?thesis by simp
  qed
  have ln: "length (ed_reviews ed) = length (event_ratings event_id db)"
    using arg_cong[OF m, of length] by simp
  have none: "avgRating ed = ''N/A''" if "event_ratings event_id db = []"
    using that ln by (simp add: avgRating_def)
  have some: "\<exists>v. one_decimal_value (avgRating ed) = Some v \<and>
             \<bar>v - arithmetic_mean (event_ratings event_id db)\<bar> \<le> 1 / 20"
    if "event_ratings event_id db \<noteq> []"
  proof -
    from that ln have ne: "ed_reviews ed \<noteq> []" by auto
    from a ln have "length (ed_reviews ed) < 2 ^ 46" by simp
    from avgRating_nearest_tenth[OF ne rg this] show ?thesis by (simp only: m)
  qed
  have ex: "avgRating ed = ''4.0''" if r: "event_ratings event_id db = [5, 3, 4]"
  proof -
    from r m have r': "map vi_rating (ed_reviews ed) = [5, 3, 4]" by simp
    from r ln have l: "length (ed_reviews ed) = 3" by simp
    have "foldl (\<lambda>sum r. sum + vi_rating r) 0 (ed_reviews ed) = 12"
      by (simp add: foldl_rating_sum r')
    then show ?thesis using l by (simp add: avgRating_def twelve_by_three)
  qed
  from m none some ex
  show "map vi_rating (ed_reviews ed) = event_ratings event_id db \<and>
     (event_ratings event_id db = [] \<longrightarrow> avgRating ed = ''N/A'') \<and>
     (event_ratings event_id db \<noteq> [] \<longrightarrow>
        (\<exists>v. one_decimal_value (avgRating ed) = Some v \<and>
             \<bar>v - arithmetic_mean (event_ratings event_id db)\<bar> \<le> 1 / 20)) \<and>
     (event_ratings event_id db = [5, 3, 4] \<longrightarrow> avgRating ed = ''4.0'')"
    by blast
qed

text \<open>
  C6, witness: the public event of the reviewed database has the ratings 5, 3, 4 with
  mean 4, and its page shows \<^verbatim>\<open>"4.0"\<close>, which reads as 4; the private event has no
  reviews, and its organizer's page shows \<^verbatim>\<open>"N/A"\<close>.
\<close>

theorem avgRating_mean_one_decimal_witness:
  "reachable demo_reviewed_db \<and>
   select_event_single (Some 3) 10 demo_reviewed_db =
     Inr (event_with_embeds (Some 3) demo_reviewed_db demo_public_event) \<and>
   event_ratings 10 demo_reviewed_db = [5, 3, 4] \<and>
   arithmetic_mean (event_ratings 10 demo_reviewed_db) = 4 \<and>
   avgRating (event_with_embeds (Some 3) demo_reviewed_db demo_public_event) = ''4.0'' \<and>
   one_decimal_value (avgRating (event_with_embeds (Some 3) demo_reviewed_db demo_public_event))
     = Some 4 \<and>
   select_event_single (Some 1) 11 demo_reviewed_db =
     Inr (event_with_embeds (Some 1) demo_reviewed_db demo_private_event) \<and>
   event_ratings 11 demo_reviewed_db = [] \<and>
   avgRating (event_with_embeds (Some 1) demo_reviewed_db demo_private_event) = ''N/A''"
proof -
  have l: "select_event_single (Some 3) 10 demo_reviewed_db =
      Inr (event_with_embeds (Some 3) demo_reviewed_db demo_public_event)"
    by (simp add: select_event_single_def select_events_def event_visible_def
        demo_reviewed_db_def demo_public_event_def demo_private_event_def)
  have l': "select_event_single (Some 1) 11 demo_reviewed_db =
      Inr (event_with_embeds (Some 1) demo_reviewed_db demo_private_event)"
    by (simp add: select_event_single_def select_events_def event_visible_def
        demo_reviewed_db_def demo_public_event_def demo_private_event_def)
  have r: "event_ratings 10 demo_reviewed_db = [5, 3, 4]" "event_ratings 11 demo_reviewed_db = []"
    by (simp_all add: event_ratings_def demo_reviewed_db_def)
  have m: "arithmetic_mean [5, 3, 4] = 4" by (simp add: arithmetic_mean_def)
  note pub = avgRating_mean_one_decimal[of demo_reviewed_db "Some 3" 10
      "event_with_embeds (Some 3) demo_reviewed_db demo_public_event"]
  note priv = avgRating_mean_one_decimal[of demo_reviewed_db "Some 1" 11
      "event_with_embeds (Some 1) demo_reviewed_db demo_private_event"]
  from pub reachable_demo_reviewed_db l r
  have four: "avgRating (event_with_embeds (Some 3) demo_reviewed_db demo_public_event) = ''4.0''"
    by simp
  from priv reachable_demo_reviewed_db l' r
  have na: "avgRating (event_with_embeds (Some 1) demo_reviewed_db demo_private_event) = ''N/A''"
    by simp
  from reachable_demo_reviewed_db l l' r m four na show ?thesis
    by (simp add: one_decimal_value_examples)
qed

text \<open>
  Where the mean lies exactly between two numerals, the double decides: 81/20 is
  stored as a double just below 4.05 and shown as \<^verbatim>\<open>"4.0"\<close>; 17/4 is exact and shown as
  \<^verbatim>\<open>"4.3"\<close>. Both are within \<open>1/20\<close> of the mean.
\<close>

lemma avgRating_ties:
  "arithmetic_mean (replicate 19 4 @ [5]) = 81 / 20"
  "avgRating (rated (replicate 19 4 @ [5])) = ''4.0''"
  "arithmetic_mean [4, 4, 4, 5] = 17 / 4"
  "avgRating (rated [4, 4, 4, 5]) = ''4.3''"
  by code_simp+

section \<open>Facts about the buckets\<close>

lemma map_of_tabulate:
  "map_of (map (\<lambda>d. (d, f d)) xs) d = (if d \<in> set xs then Some (f d) else None)"
  by (induction xs) auto

lemma count_in_range:
  "sum_list (map (\<lambda>d. length (filter (\<lambda>t. day_of t = d) stamps)) [i..j]) =
     length (filter (\<lambda>t. i \<le> day_of t \<and> day_of t \<le> j) stamps)"
proof (induction stamps)
  case Nil
  then show ?case by simp
next
  case (Cons t ts)
  have one: "sum_list (map (\<lambda>d. if day_of t = d then 1 else 0) [i..j]) =
        (if i \<le> day_of t \<and> day_of t \<le> j then 1 else (0::nat))"
    by (simp add: sum_list_distinct_conv_sum_set)
  have "sum_list (map (\<lambda>d. length (filter (\<lambda>t. day_of t = d) (t # ts))) [i..j]) =
        sum_list (map (\<lambda>d. (if day_of t = d then 1 else 0) + length (filter (\<lambda>t. day_of t = d) ts)) [i..j])"
    by (intro arg_cong[where f = sum_list] map_cong) auto
  also have "\<dots> = sum_list (map (\<lambda>d. if day_of t = d then 1 else 0) [i..j]) +
        sum_list (map (\<lambda>d. length (filter (\<lambda>t. day_of t = d) ts)) [i..j])"
    by (simp add: sum_list_addf)
  finally show ?case using Cons one by simp
qed

lemma demo_dates: "date 2024 1 1 = 19723" "date 2024 1 2 = 19724" "date 2024 1 3 = 19725"
  "date 1970 1 1 = 0" "date 2024 2 29 = 19782" "date 2024 3 1 = 19783"
  by (simp_all add: date_def)

section \<open>The trend series (C9)\<close>

text \<open>
  C9, for the trends as the spec describes them. The series has one bucket per day of
  the inclusive range, in ascending order and without repetition or gap; the bucket of a
  day holds the number of timestamps that fall on it, 0 if none does; the counts add up
  to the number of timestamps within the range. With one timestamp on 2024-01-02 the
  series from 2024-01-01 to 2024-01-03 is (01-01, 0), (01-02, 1), (01-03, 0).
\<close>

theorem trends_buckets:
  "map fst (trends start_date end_date stamps) = [start_date..end_date] \<and>
   length (trends start_date end_date stamps) = nat (end_date - start_date + 1) \<and>
   sorted (map fst (trends start_date end_date stamps)) \<and>
   distinct (map fst (trends start_date end_date stamps)) \<and>
   (start_date \<le> d \<and> d \<le> end_date \<longrightarrow>
      map_of (trends start_date end_date stamps) d =
        Some (length (filter (\<lambda>t. day_of t = d) stamps))) \<and>
   sum_list (map snd (trends start_date end_date stamps)) =
     length (filter (\<lambda>t. start_date \<le> day_of t \<and> day_of t \<le> end_date) stamps) \<and>
   (day_of t = date 2024 1 2 \<longrightarrow>
      trends (date 2024 1 1) (date 2024 1 3) [t] =
        [(date 2024 1 1, 0), (date 2024 1 2, 1), (date 2024 1 3, 0)])"
proof -
  have f: "map fst (trends start_date end_date stamps) = [start_date..end_date]"
    by (simp add: trends_def comp_def)
  have s: "map snd (trends start_date end_date stamps) =
      map (\<lambda>d. length (filter (\<lambda>t. day_of t = d) stamps)) [start_date..end_date]"
    by (simp add: trends_def comp_def)
  have l: "length (trends start_date end_date stamps) = nat (end_date - start_date + 1)"
    by (simp add: trends_def)
  have m: "map_of (trends start_date end_date stamps) d =
        Some (length (filter (\<lambda>t. day_of t = d) stamps))"
    if "start_date \<le> d \<and> d \<le> end_date"
    using that by (simp add: trends_def map_of_tabulate)
  have e: "trends (date 2024 1 1) (date 2024 1 3) [t] =
        [(date 2024 1 1, 0), (date 2024 1 2, 1), (date 2024 1 3, 0)]"
    if "day_of t = date 2024 1 2"
    using that by (simp add: trends_def demo_dates upto_rec1)
  show ?thesis
    using l m e by (simp add: f s count_in_range)
qed

text \<open>
  C9, witness: noon of 2024-01-02 (UTC, in milliseconds) falls on day 19724, and the
  series of the three days around it is as the spec says.
\<close>

theorem trends_buckets_witness:
  "day_of 1704196800000 = date 2024 1 2 \<and>
   trends (date 2024 1 1) (date 2024 1 3) [1704196800000] =
     [(date 2024 1 1, 0), (date 2024 1 2, 1), (date 2024 1 3, 0)] \<and>
   map_of (trends (date 2024 1 1) (date 2024 1 3) [1704196800000]) (date 2024 1 2) = Some 1 \<and>
   map fst (trends (date 2024 1 1) (date 2024 1 3) [1704196800000]) = [19723, 19724, 19725]"
proof -
  have d: "day_of 1704196800000 = date 2024 1 2" by (simp add: day_of_def demo_dates)
  note inst = trends_buckets[of "date 2024 1 1" "date 2024 1 3" "[1704196800000]" "date 2024 1 2"
      1704196800000]
  from inst d show ?thesis by (simp add: demo_dates upto_rec1)
qed

section \<open>Facts about the RSVP handler\<close>

lemma find_filter: "find P (filter Q xs) = find (\<lambda>x. Q x \<and> P x) xs"
  by (induction xs) auto

lemma find_through_map: "find P (map f xs) = map_option f (find (\<lambda>x. P (f x)) xs)"
  by (induction xs) auto

lemma find_append_none: "find P xs = None \<Longrightarrow> find P (xs @ ys) = find P ys"
  by (induction xs) (auto split: if_splits)

lemma find_none_iff_pair:
  "(find (\<lambda>r. rsvp_event_id r = e \<and> rsvp_user_id r = u) xs = None) =
     ((e, u) \<notin> set (map (\<lambda>r. (rsvp_event_id r, rsvp_user_id r)) xs))"
  by (induction xs) auto

lemma own_rsvp_None_iff:
  "(own_rsvp event_id u db = None) =
     ((event_id, u) \<notin> set (map (\<lambda>r. (rsvp_event_id r, rsvp_user_id r)) (rsvps db)))"
  by (simp add: own_rsvp_def find_none_iff_pair)

lemma at_most_one_of_distinct:
  "distinct (map f xs) \<Longrightarrow> length (filter (\<lambda>x. f x = k) xs) \<le> 1"
proof (induction xs)
  case Nil
  then show ?case by simp
next
  case (Cons x xs)
  show ?case
  proof (cases "f x = k")
    case True
    from Cons.prems have "f x \<notin> f ` set xs" by simp
    with True have "\<forall>y \<in> set xs. f y \<noteq> k" by (metis image_eqI)
    then have "filter (\<lambda>x. f x = k) xs = []"
      by (simp add: filter_empty_conv)
    with True show ?thesis by simp
  next
    case False
    with Cons show ?thesis by simp
  qed
qed

lemma fetchEvent_sync:
  assumes "fetchEvent (Some u) event_id db pg = (Loaded, pg')"
  shows "pg_userRsvp pg' = own_rsvp event_id u db"
proof -
  from assms obtain data where s: "select_event_single (Some u) event_id db = Inr data"
    and p: "pg' = pg\<lparr>pg_event := Some data,
        pg_userRsvp := map_option ri_status (find (\<lambda>r. ri_user_id r = u) (ed_rsvps data))\<rparr>"
    by (auto simp: fetchEvent_def split: sum.splits)
  from select_event_single_Inr[OF s] obtain e where
    d: "data = event_with_embeds (Some u) db e" and e: "ev_id e = event_id" by blast
  have "find (\<lambda>r. ri_user_id r = u) (ed_rsvps data) =
      map_option (\<lambda>r. \<lparr>ri_id = rsvp_id r, ri_status = rsvp_state r, ri_user_id = rsvp_user_id r\<rparr>)
        (find (\<lambda>r. rsvp_event_id r = event_id \<and> rsvp_user_id r = u) (rsvps db))"
    by (simp add: d e event_with_embeds_def select_rsvps_def find_through_map find_filter)
  then show ?thesis
    by (simp add: p own_rsvp_def option.map_comp comp_def)
qed

lemma fetchEvent_userRsvp_cases:
  "pg_userRsvp (snd (fetchEvent (Some u) event_id db pg)) = own_rsvp event_id u db \<or>
   pg_userRsvp (snd (fetchEvent (Some u) event_id db pg)) = pg_userRsvp pg"
proof (cases "fst (fetchEvent (Some u) event_id db pg)")
  case Loaded
  then have "fetchEvent (Some u) event_id db pg = (Loaded, snd (fetchEvent (Some u) event_id db pg))"
    by (simp add: prod_eq_iff)
  from fetchEvent_sync[OF this] show ?thesis by simp
next
  case LoadFailed
  then show ?thesis by (auto simp: fetchEvent_def split: sum.splits)
qed

lemma update_own_rows:
  "rsvps (update_rsvp_status (Some u) now event_id u status db) =
     map (\<lambda>r. if rsvp_event_id r = event_id \<and> rsvp_user_id r = u
               then r\<lparr>rsvp_state := status, rsvp_updated_at := now\<rparr> else r) (rsvps db)"
proof -
  have c: "(Some u = Some (rsvp_user_id r) \<and> rsvp_event_id r = event_id \<and> rsvp_user_id r = u) =
      (rsvp_event_id r = event_id \<and> rsvp_user_id r = u)" for r
    by blast
  have "rsvps (update_rsvp_status (Some u) now event_id u status db) =
     map (\<lambda>r. if Some u = Some (rsvp_user_id r) \<and> rsvp_event_id r = event_id \<and> rsvp_user_id r = u
               then r\<lparr>rsvp_state := status, rsvp_updated_at := now\<rparr> else r) (rsvps db)"
    by (simp add: update_rsvp_status_def)
  also have "\<dots> = map (\<lambda>r. if rsvp_event_id r = event_id \<and> rsvp_user_id r = u
               then r\<lparr>rsvp_state := status, rsvp_updated_at := now\<rparr> else r) (rsvps db)"
    by (simp only: c)
  finally show ?thesis .
qed

lemma find_map_update:
  "find (\<lambda>r. rsvp_event_id r = e \<and> rsvp_user_id r = u)
     (map (\<lambda>r. if rsvp_event_id r = e \<and> rsvp_user_id r = u
               then r\<lparr>rsvp_state := status, rsvp_updated_at := now\<rparr> else r) xs) =
   map_option (\<lambda>r. r\<lparr>rsvp_state := status, rsvp_updated_at := now\<rparr>)
     (find (\<lambda>r. rsvp_event_id r = e \<and> rsvp_user_id r = u) xs)"
  by (induction xs) auto

lemma own_rsvp_update:
  "own_rsvp event_id u (update_rsvp_status (Some u) now event_id u status db) =
     map_option (\<lambda>_. status) (own_rsvp event_id u db)"
  by (simp add: own_rsvp_def update_own_rows find_map_update option.map_comp comp_def)

lemma own_rsvp_insert:
  assumes "insert_rsvp (Some u) new_id now event_id u status db = Inr db'"
  shows "own_rsvp event_id u db' = Some status \<and>
         rsvps db' = rsvps db @
           [\<lparr>rsvp_id = new_id, rsvp_event_id = event_id, rsvp_user_id = u, rsvp_state = status,
             rsvp_created_at = now, rsvp_updated_at = now\<rparr>]"
proof -
  from assms have n: "(event_id, u) \<notin> set (map (\<lambda>r. (rsvp_event_id r, rsvp_user_id r)) (rsvps db))"
    and d: "db' = db\<lparr>rsvps := rsvps db @
           [\<lparr>rsvp_id = new_id, rsvp_event_id = event_id, rsvp_user_id = u, rsvp_state = status,
             rsvp_created_at = now, rsvp_updated_at = now\<rparr>]\<rparr>"
    by (auto simp: insert_rsvp_def split: if_splits)
  from n have "find (\<lambda>r. rsvp_event_id r = event_id \<and> rsvp_user_id r = u) (rsvps db) = None"
    by (simp add: find_none_iff_pair)
  then show ?thesis by (simp add: d own_rsvp_def find_append_none)
qed

lemma handleRsvp_synced:
  assumes sync: "pg_userRsvp pg = own_rsvp event_id u db"
    and h: "handleRsvp (Some u) event_id status new_id now pg db = (out, pg', db')"
  shows "((event_id, u) \<in> set (map (\<lambda>r. (rsvp_event_id r, rsvp_user_id r)) (rsvps db)) \<longrightarrow>
            out = RsvpUpdated status \<and>
            rsvps db' = map (\<lambda>r. if rsvp_event_id r = event_id \<and> rsvp_user_id r = u
               then r\<lparr>rsvp_state := status, rsvp_updated_at := now\<rparr> else r) (rsvps db)) \<and>
         (out = RsvpUpdated status \<longrightarrow>
            own_rsvp event_id u db' = Some status \<and> pg_userRsvp pg' = own_rsvp event_id u db')"
proof (cases "own_rsvp event_id u db")
  case None
  then have no: "(event_id, u) \<notin> set (map (\<lambda>r. (rsvp_event_id r, rsvp_user_id r)) (rsvps db))"
    by (simp add: own_rsvp_None_iff)
  show ?thesis
  proof (cases "insert_rsvp (Some u) new_id now event_id u status db")
    case (Inl err)
    with h sync None no show ?thesis by (auto simp: handleRsvp_def)
  next
    case (Inr d)
    with h sync None have o: "out = RsvpUpdated status" and d: "db' = d"
      and p: "pg' = snd (fetchEvent (Some u) event_id d (pg\<lparr>pg_userRsvp := Some status\<rparr>))"
      by (auto simp: handleRsvp_def)
    from own_rsvp_insert[OF Inr] have own: "own_rsvp event_id u db' = Some status"
      by (simp add: d)
    from fetchEvent_userRsvp_cases[of u event_id d "pg\<lparr>pg_userRsvp := Some status\<rparr>"]
    have "pg_userRsvp pg' = own_rsvp event_id u db'" using own by (auto simp: p d)
    with own no show ?thesis by simp
  qed
next
  case (Some old)
  then have yes: "(event_id, u) \<in> set (map (\<lambda>r. (rsvp_event_id r, rsvp_user_id r)) (rsvps db))"
    using own_rsvp_None_iff[of event_id u db] by simp
  from h sync Some have o: "out = RsvpUpdated status"
    and d: "db' = update_rsvp_status (Some u) now event_id u status db"
    and p: "pg' = snd (fetchEvent (Some u) event_id db' (pg\<lparr>pg_userRsvp := Some status\<rparr>))"
    by (auto simp: handleRsvp_def)
  have own: "own_rsvp event_id u db' = Some status" by (simp add: d own_rsvp_update Some)
  from fetchEvent_userRsvp_cases[of u event_id db' "pg\<lparr>pg_userRsvp := Some status\<rparr>"]
  have "pg_userRsvp pg' = own_rsvp event_id u db'" using own by (auto simp: p)
  with own o show ?thesis by (simp add: d update_own_rows)
qed

lemma handleRsvp_reachable:
  assumes "reachable db" "handleRsvp user event_id status new_id now pg db = (out, pg', db')"
  shows "reachable db'"
proof (cases user)
  case None
  with assms show ?thesis by (simp add: handleRsvp_def)
next
  case (Some u)
  show ?thesis
  proof (cases "pg_userRsvp pg")
    case None
    show ?thesis
    proof (cases "insert_rsvp (Some u) new_id now event_id u status db")
      case (Inl err)
      with assms Some None show ?thesis by (auto simp: handleRsvp_def)
    next
      case (Inr d)
      with assms Some None have "db' = d" by (auto simp: handleRsvp_def)
      with Inr assms(1) show ?thesis by (auto intro: reachable.rsvp_inserted)
    qed
  next
    case (Some s)
    with assms \<open>user = Some u\<close> have "db' = update_rsvp_status (Some u) now event_id u status db"
      by (auto simp: handleRsvp_def)
    with assms(1) show ?thesis by (simp add: reachable.rsvp_updated)
  qed
qed

lemma same_state_update:
  assumes d: "distinct (map (\<lambda>r. (rsvp_event_id r, rsvp_user_id r)) xs)"
    and f: "map_option rsvp_state (find (\<lambda>r. rsvp_event_id r = e \<and> rsvp_user_id r = u) xs) = Some s"
  shows "map rsvp_state (map (\<lambda>r. if rsvp_event_id r = e \<and> rsvp_user_id r = u
               then r\<lparr>rsvp_state := s, rsvp_updated_at := now\<rparr> else r) xs) = map rsvp_state xs"
proof -
  from f obtain r where r: "find (\<lambda>r. rsvp_event_id r = e \<and> rsvp_user_id r = u) xs = Some r"
    and s: "rsvp_state r = s" by auto
  from r have rin: "r \<in> set xs" and rk: "rsvp_event_id r = e \<and> rsvp_user_id r = u"
    by (auto simp: find_Some_iff)
  from d have inj: "inj_on (\<lambda>r. (rsvp_event_id r, rsvp_user_id r)) (set xs)"
    by (simp add: distinct_map)
  have "rsvp_state x = s" if "x \<in> set xs" "rsvp_event_id x = e \<and> rsvp_user_id x = u" for x
  proof -
    have "(rsvp_event_id x, rsvp_user_id x) = (rsvp_event_id r, rsvp_user_id r)"
      using that rk by simp
    with inj that(1) rin have "x = r" by (auto dest: inj_onD)
    with s show ?thesis by simp
  qed
  then show ?thesis by (induction xs) auto
qed

lemma demo_page_loaded:
  "fetchEvent (Some 3) 10 demo_events_db initial_page =
     (Loaded, \<lparr>pg_event = Some (event_with_embeds (Some 3) demo_events_db demo_public_event),
               pg_userRsvp = None\<rparr>)"
  by (simp add: fetchEvent_def select_event_single_def select_events_def event_visible_def
      event_with_embeds_def select_rsvps_def initial_page_def demo_events_db_def
      demo_public_event_def demo_private_event_def)

lemma demo_first_click_result:
  "fst demo_first_click = RsvpUpdated going \<and>
   pg_userRsvp (fst (snd demo_first_click)) = Some going \<and>
   snd (snd demo_first_click) = demo_events_db\<lparr>rsvps :=
     [\<lparr>rsvp_id = 21, rsvp_event_id = 10, rsvp_user_id = 3, rsvp_state = going,
       rsvp_created_at = 60, rsvp_updated_at = 60\<rparr>]\<rparr>"
  by (simp add: demo_first_click_def demo_page_loaded handleRsvp_def insert_rsvp_def
      fetchEvent_def select_event_single_def select_events_def event_visible_def
      event_with_embeds_def select_rsvps_def demo_events_db_def demo_profiles_def
      demo_public_event_def demo_private_event_def)

section \<open>One RSVP per user and event (C4)\<close>

text \<open>
  What holds of C4. In every reachable state no two RSVPs share their
  \<^verbatim>\<open>(event_id, user_id)\<close>: at most one row per pair; and \<^verbatim>\<open>handleRsvp\<close> leads from
  reachable states to reachable states. On a page that has just loaded the event, a
  submission by a user who already has an RSVP for it updates that row's status (and
  \<^verbatim>\<open>updated_at\<close>) and adds no row. So does the second of two submissions, when the page
  has taken up the first one's result; and repeating the same status leaves every status
  as it was.
\<close>

theorem rsvp_upsert:
  "(reachable db \<longrightarrow>
      distinct (map (\<lambda>r. (rsvp_event_id r, rsvp_user_id r)) (rsvps db)) \<and>
      length (filter (\<lambda>r. (rsvp_event_id r, rsvp_user_id r) = (event_id, u)) (rsvps db)) \<le> 1) \<and>
   (reachable db \<and> handleRsvp user event_id status new_id now pg db = (out, pg', db') \<longrightarrow>
      reachable db') \<and>
   (fetchEvent (Some u) event_id db pg0 = (Loaded, pg) \<and>
    (event_id, u) \<in> set (map (\<lambda>r. (rsvp_event_id r, rsvp_user_id r)) (rsvps db)) \<and>
    handleRsvp (Some u) event_id status new_id now pg db = (out, pg', db') \<longrightarrow>
      out = RsvpUpdated status \<and>
      rsvps db' = map (\<lambda>r. if rsvp_event_id r = event_id \<and> rsvp_user_id r = u
                   then r\<lparr>rsvp_state := status, rsvp_updated_at := now\<rparr> else r) (rsvps db) \<and>
      length (rsvps db') = length (rsvps db) \<and>
      own_rsvp event_id u db' = Some status) \<and>
   (fetchEvent (Some u) event_id db pg0 = (Loaded, pg) \<and>
    handleRsvp (Some u) event_id s1 id1 t1 pg db = (RsvpUpdated s1, pg1, db1) \<and>
    handleRsvp (Some u) event_id s2 id2 t2 pg1 db1 = (out2, pg2, db2) \<longrightarrow>
      out2 = RsvpUpdated s2 \<and>
      rsvps db2 = map (\<lambda>r. if rsvp_event_id r = event_id \<and> rsvp_user_id r = u
                   then r\<lparr>rsvp_state := s2, rsvp_updated_at := t2\<rparr> else r) (rsvps db1) \<and>
      length (rsvps db2) = length (rsvps db1) \<and>
      own_rsvp event_id u db2 = Some s2 \<and>
      (reachable db \<and> s2 = s1 \<longrightarrow> map rsvp_state (rsvps db2) = map rsvp_state (rsvps db1)))"
proof (intro conjI impI)
  assume "reachable db"
  then show d: "distinct (map (\<lambda>r. (rsvp_event_id r, rsvp_user_id r)) (rsvps db))"
    using reachable_invariants by blast
  then show "length (filter (\<lambda>r. (rsvp_event_id r, rsvp_user_id r) = (event_id, u)) (rsvps db)) \<le> 1"
    by (rule at_most_one_of_distinct)
next
  assume "reachable db \<and> handleRsvp user event_id status new_id now pg db = (out, pg', db')"
  then show "reachable db'" using handleRsvp_reachable by blast
next
  assume a: "fetchEvent (Some u) event_id db pg0 = (Loaded, pg) \<and>
    (event_id, u) \<in> set (map (\<lambda>r. (rsvp_event_id r, rsvp_user_id r)) (rsvps db)) \<and>
    handleRsvp (Some u) event_id status new_id now pg db = (out, pg', db')"
  then have sync: "pg_userRsvp pg = own_rsvp event_id u db" using fetchEvent_sync by blast
  note h = handleRsvp_synced[OF sync, of status new_id now out pg' db']
  from h a show o: "out = RsvpUpdated status" by blast
  from h a show r: "rsvps db' = map (\<lambda>r. if rsvp_event_id r = event_id \<and> rsvp_user_id r = u
                   then r\<lparr>rsvp_state := status, rsvp_updated_at := now\<rparr> else r) (rsvps db)"
    by blast
  then show "length (rsvps db') = length (rsvps db)" by simp
  from h a o show "own_rsvp event_id u db' = Some status" by blast
next
  assume a: "fetchEvent (Some u) event_id db pg0 = (Loaded, pg) \<and>
    handleRsvp (Some u) event_id s1 id1 t1 pg db = (RsvpUpdated s1, pg1, db1) \<and>
    handleRsvp (Some u) event_id s2 id2 t2 pg1 db1 = (out2, pg2, db2)"
  then have sync: "pg_userRsvp pg = own_rsvp event_id u db" using fetchEvent_sync by blast
  from handleRsvp_synced[OF sync, of s1 id1 t1 "RsvpUpdated s1" pg1 db1] a
  have own1: "own_rsvp event_id u db1 = Some s1" and sync1: "pg_userRsvp pg1 = own_rsvp event_id u db1"
    by blast+
  from own1 have ex: "(event_id, u) \<in> set (map (\<lambda>r. (rsvp_event_id r, rsvp_user_id r)) (rsvps db1))"
    using own_rsvp_None_iff[of event_id u db1] by simp
  note h = handleRsvp_synced[OF sync1, of s2 id2 t2 out2 pg2 db2]
  from h a ex show o: "out2 = RsvpUpdated s2" by blast
  from h a ex show r: "rsvps db2 = map (\<lambda>r. if rsvp_event_id r = event_id \<and> rsvp_user_id r = u
                   then r\<lparr>rsvp_state := s2, rsvp_updated_at := t2\<rparr> else r) (rsvps db1)"
    by blast
  then show "length (rsvps db2) = length (rsvps db1)" by simp
  from h a o show "own_rsvp event_id u db2 = Some s2" by blast
  show "map rsvp_state (rsvps db2) = map rsvp_state (rsvps db1)" if b: "reachable db \<and> s2 = s1"
  proof -
    from b a have "reachable db1" using handleRsvp_reachable by blast
    then have d: "distinct (map (\<lambda>r. (rsvp_event_id r, rsvp_user_id r)) (rsvps db1))"
      using reachable_invariants by blast
    from own1 b have f: "map_option rsvp_state
        (find (\<lambda>r. rsvp_event_id r = event_id \<and> rsvp_user_id r = u) (rsvps db1)) = Some s2"
      by (simp add: own_rsvp_def)
    show ?thesis by (simp only: r same_state_update[OF d f])
  qed
qed

text \<open>
  An instance: the third account's first answer inserts its row, its second answer
  turns that row's status to \<^verbatim>\<open>maybe\<close>; there is one row for the pair.
\<close>

theorem rsvp_upsert_witness:
  "reachable demo_events_db \<and>
   fst (fetchEvent (Some 3) 10 demo_events_db initial_page) = Loaded \<and>
   fst demo_first_click = RsvpUpdated going \<and>
   rsvps (snd (snd demo_first_click)) =
     [\<lparr>rsvp_id = 21, rsvp_event_id = 10, rsvp_user_id = 3, rsvp_state = going,
       rsvp_created_at = 60, rsvp_updated_at = 60\<rparr>] \<and>
   fst demo_second_click = RsvpUpdated maybe \<and>
   rsvps (snd (snd demo_second_click)) =
     [\<lparr>rsvp_id = 21, rsvp_event_id = 10, rsvp_user_id = 3, rsvp_state = maybe,
       rsvp_created_at = 60, rsvp_updated_at = 70\<rparr>] \<and>
   reachable (snd (snd demo_second_click)) \<and>
   length (filter (\<lambda>r. (rsvp_event_id r, rsvp_user_id r) = (10, 3))
     (rsvps (snd (snd demo_second_click)))) \<le> 1"
proof -
  define pg where "pg = snd (fetchEvent (Some 3) 10 demo_events_db initial_page)"
  have l: "fetchEvent (Some 3) 10 demo_events_db initial_page = (Loaded, pg)"
    by (simp add: pg_def demo_page_loaded)
  have c1: "handleRsvp (Some 3) 10 going 21 60 pg demo_events_db =
      (RsvpUpdated going, fst (snd demo_first_click), snd (snd demo_first_click))"
    using demo_first_click_result by (simp add: demo_first_click_def pg_def prod_eq_iff)
  have c2: "handleRsvp (Some 3) 10 maybe 22 70 (fst (snd demo_first_click)) (snd (snd demo_first_click)) =
      (fst demo_second_click, fst (snd demo_second_click), snd (snd demo_second_click))"
    by (simp add: demo_second_click_def)
  have r1: "reachable (snd (snd demo_first_click))"
    using rsvp_upsert[of demo_events_db 10 3 "Some 3" going 21 60 pg "RsvpUpdated going"
        "fst (snd demo_first_click)" "snd (snd demo_first_click)"]
      reachable_demo_events_db c1 by blast
  have r2: "reachable (snd (snd demo_second_click))"
    using rsvp_upsert[of "snd (snd demo_first_click)" 10 3 "Some 3" maybe 22 70
        "fst (snd demo_first_click)" "fst demo_second_click"
        "fst (snd demo_second_click)" "snd (snd demo_second_click)"] r1 c2 by blast
  note two = rsvp_upsert[of demo_events_db 10 3 "Some 3" going 21 60 pg "RsvpUpdated going"
        "fst (snd demo_first_click)" "snd (snd demo_first_click)" initial_page
        going 21 60 "fst (snd demo_first_click)" "snd (snd demo_first_click)"
        maybe 22 70 "fst demo_second_click" "fst (snd demo_second_click)"
        "snd (snd demo_second_click)"]
  from two l c1 c2 have o2: "fst demo_second_click = RsvpUpdated maybe"
    and rows: "rsvps (snd (snd demo_second_click)) =
      map (\<lambda>r. if rsvp_event_id r = 10 \<and> rsvp_user_id r = 3
                   then r\<lparr>rsvp_state := maybe, rsvp_updated_at := 70\<rparr> else r)
        (rsvps (snd (snd demo_first_click)))"
    by blast+
  have one: "length (filter (\<lambda>r. (rsvp_event_id r, rsvp_user_id r) = (10, 3))
     (rsvps (snd (snd demo_second_click)))) \<le> 1"
    using rsvp_upsert[of "snd (snd demo_second_click)" 10 3] r2 by blast
  from reachable_demo_events_db l o2 rows r2 one demo_first_click_result show ?thesis
    by simp
qed

text \<open>
  C4, where the code misses it. The handler chooses between update and insert by the
  page's \<^verbatim>\<open>userRsvp\<close>, not by the stored rows. The third account's page of the public
  event was loaded before its first answer and still holds no \<^verbatim>\<open>userRsvp\<close> when the
  second answer is given (a second window, or a second click before the first answer has
  come back). The first answer \<^verbatim>\<open>going\<close> is stored; the second answer \<^verbatim>\<open>maybe\<close> takes the
  insert branch, the unique constraint refuses it, the page answers
  \<^verbatim>\<open>"Failed to update RSVP"\<close>, and the stored status is still \<^verbatim>\<open>going\<close>.
\<close>

theorem second_window_insert_refused:
  "handleRsvp (Some 3) 10 maybe 22 70
     (snd (fetchEvent (Some 3) 10 demo_events_db initial_page)) (snd (snd demo_first_click)) =
     (RsvpFailed (UniqueViolation ''rsvps_event_id_user_id_key''),
      snd (fetchEvent (Some 3) 10 demo_events_db initial_page), snd (snd demo_first_click)) \<and>
   own_rsvp 10 3 (snd (snd demo_first_click)) = Some going \<and>
   fst demo_first_click = RsvpUpdated going"
proof -
  have p: "pg_userRsvp (snd (fetchEvent (Some 3) 10 demo_events_db initial_page)) = None"
    by (simp add: demo_page_loaded)
  have d: "rsvps (snd (snd demo_first_click)) =
      [\<lparr>rsvp_id = 21, rsvp_event_id = 10, rsvp_user_id = 3, rsvp_state = going,
        rsvp_created_at = 60, rsvp_updated_at = 60\<rparr>]"
    using demo_first_click_result by simp
  show ?thesis
    using demo_first_click_result by (simp add: handleRsvp_def p d insert_rsvp_def own_rsvp_def)
qed

end
